theory Spec2Isabelle
  imports Main
begin

section \<open>JavaScript values crossing the Worker boundary\<close>

text \<open>
  Messages are structured clones: primitives, arrays and plain objects. A plain object is
  an association list of its own properties in insertion order. \<open>JFunction t\<close> is the
  row callback that \<open>wMsgHandler.exec\<close> installs in place of the message-type key \<open>t\<close>;
  an inbound message never holds one. Numbers are the safe integers (those of magnitude
  below \<open>2^53\<close>, \<open>Number.isSafeInteger\<close>): a number holds each of them exactly and renders
  it in plain decimal.
\<close>

typedef safe_integer = "{i :: int. - 9007199254740992 < i \<and> i < 9007199254740992}"
  morphisms int_of_safe Safe
proof
  show "0 \<in> {i :: int. - 9007199254740992 < i \<and> i < 9007199254740992}" by simp
qed

datatype jsval =
    JUndefined
  | JNull
  | JBool bool
  | JNum safe_integer
  | JStr string
  | JArray "jsval list"
  | JObject "(string \<times> jsval) list"
  | JFunction string

type_synonym jsobj = "(string \<times> jsval) list"

text \<open>The truthiness test of \<open>if(x)\<close>, \<open>!x\<close> and \<open>x || y\<close>.\<close>

fun truthy :: "jsval \<Rightarrow> bool" where
  "truthy JUndefined = False"
| "truthy JNull = False"
| "truthy (JBool b) = b"
| "truthy (JNum n) = (int_of_safe n \<noteq> 0)"
| "truthy (JStr s) = (s \<noteq> [])"
| "truthy (JArray xs) = True"
| "truthy (JObject kvs) = True"
| "truthy (JFunction t) = True"

text \<open>\<open>o.k\<close> on a plain object: a missing property reads as \<open>undefined\<close>.\<close>

definition get_prop :: "jsobj \<Rightarrow> string \<Rightarrow> jsval" where
  "get_prop obj k = (case map_of obj k of None \<Rightarrow> JUndefined | Some v \<Rightarrow> v)"

text \<open>\<open>o.k = v\<close>: an existing property keeps its place, a new one goes last.\<close>

fun set_prop :: "jsobj \<Rightarrow> string \<Rightarrow> jsval \<Rightarrow> jsobj" where
  "set_prop [] k v = [(k, v)]"
| "set_prop ((k', v') # kvs) k v =
     (if k' = k then (k, v) # kvs else (k', v') # set_prop kvs k v)"

text \<open>Decimal rendering of a number, as string concatenation does it.\<close>

definition digit_char :: "nat \<Rightarrow> char" where
  "digit_char d = ''0123456789'' ! d"

fun dec :: "nat \<Rightarrow> string" where
  "dec n = (if n < 10 then [digit_char n] else dec (n div 10) @ [digit_char (n mod 10)])"

declare dec.simps [simp del]

definition dec_int :: "int \<Rightarrow> string" where
  "dec_int i = (if i < 0 then CHR ''-'' # dec (nat (- i)) else dec (nat i))"

text \<open>\<open>Array.prototype.join\<close> with a separator, on strings already converted.\<close>

fun join :: "string \<Rightarrow> string list \<Rightarrow> string" where
  "join sep [] = []"
| "join sep [x] = x"
| "join sep (x # y # ys) = x @ sep @ join sep (y # ys)"

text \<open>
  \<open>String(v)\<close>, which is also the conversion of a value used as a property key
  (\<open>this.dbs[id]\<close>). Inside an array, \<open>undefined\<close> and \<open>null\<close> render as the empty string.
\<close>

fun js_to_string :: "jsval \<Rightarrow> string" where
  "js_to_string JUndefined = ''undefined''"
| "js_to_string JNull = ''null''"
| "js_to_string (JBool b) = (if b then ''true'' else ''false'')"
| "js_to_string (JNum n) = dec_int (int_of_safe n)"
| "js_to_string (JStr s) = s"
| "js_to_string (JArray xs) =
     join '','' (map (\<lambda>x. if x = JUndefined \<or> x = JNull then [] else js_to_string x) xs)"
| "js_to_string (JObject kvs) = ''[object Object]''"
| "js_to_string (JFunction t) =
     ''(row)=>wState.post({type: callbackMsgType, rowNumber:++rowNumber, row:row}, wState.xfer)''"

definition join_element :: "jsval \<Rightarrow> string" where
  "join_element x = (if x = JUndefined \<or> x = JNull then [] else js_to_string x)"

text \<open>An exception: \<open>err.name\<close> and \<open>err.message\<close>.\<close>

datatype js_error = JsError (err_name: string) (err_message: string)

text \<open>\<open>const toss = (...args)=>{throw new Error(args.join(' '))}\<close>: the value thrown.\<close>

definition toss :: "jsval list \<Rightarrow> js_error" where
  "toss args = JsError ''Error'' (join '' '' (map join_element args))"

section \<open>Worker-level state\<close>

text \<open>
  A \<open>DB\<close> object of the OO API lives in a store, since \<open>wState.dbs\<close>, \<open>wState.idMap\<close> and
  \<open>wState.defaultDb\<close> alias it: a reference is the object's identity, \<open>db_pointer\<close> is
  \<open>db.pointer\<close> (\<open>undefined\<close> once closed) and \<open>db_filename\<close> is \<open>db.filename\<close>.
\<close>

type_synonym ref = nat

record DB =
  db_pointer :: "nat option"
  db_filename :: string

text \<open>The request \<open>ev.data\<close>; \<open>args\<close> is absent, a string, or a plain object.\<close>

datatype jsargs = ArgsAbsent | ArgsStr string | ArgsObj jsobj

record request =
  ev_type :: string
  ev_args :: jsargs
  ev_dbId :: jsval
  ev_messageId :: jsval
  ev_departureTime :: jsval

text \<open>
  The \<open>result\<close> part of a response: what the handler returned, or the object built in
  the \<open>catch\<close> block of \<open>self.onmessage\<close> (operation, message, errorClass, input).
\<close>

datatype payload =
    Result jsobj
  | ErrorResult string string string request

record response =
  rsp_type :: string
  rsp_dbId :: jsval
  rsp_messageId :: jsval
  rsp_departureTime :: jsval
  rsp_result :: payload

text \<open>
  What \<open>self.postMessage\<close> is given: the readiness announcement, a row message
  \<open>{type, rowNumber, row}\<close> (\<open>rowNumber: null\<close> is \<open>None\<close>), or a response. The second
  component of a posted entry is the transfer list.
\<close>

datatype message =
    Ready
  | RowMsg jsval "nat option" jsval
  | Response response

type_synonym posted = "message \<times> nat list"

record wstate =
  defaultDb :: "ref option"
  idSeq :: nat
  idMap :: "ref \<rightharpoonup> string"
  xfer :: "nat list"
  dbs :: "string \<rightharpoonup> ref"
  store :: "ref \<rightharpoonup> DB"
  nextRef :: ref
  unlinked :: "string list"
  outbox :: "posted list"

text \<open>
  The collaborators, as they answer while one message is handled:
  \<open>sqlite3.capi.sqlite3_web_persistent_dir()\<close> (the empty string stands for a falsy result),
  \<open>new DB(filename)\<close> (throws, or gives the pointer and the filename of the new object),
  \<open>db.fileName()\<close>, \<open>db.exec(rc)\<close> on the handle with the given pointer, and the own
  properties of \<open>sqlite3.config\<close>.
\<close>

record exec_outcome =
  ex_rows :: "(nat list \<times> jsval) list"
  ex_resultRows :: "jsval option"
  ex_columnNames :: "jsval option"
  ex_error :: "js_error option"

record engine =
  persistent_dir :: string
  new_DB :: "jsval \<Rightarrow> js_error + (nat \<times> string)"
  db_fileName :: "ref \<Rightarrow> string"
  db_exec :: "nat option \<Rightarrow> jsobj \<Rightarrow> exec_outcome"
  config :: jsobj

text \<open>The state when \<open>initWorker1API\<close> returns: nothing opened, readiness announced.\<close>

definition wInit :: wstate where
  "wInit = \<lparr>defaultDb = None, idSeq = 0, idMap = Map.empty, xfer = [], dbs = Map.empty,
     store = Map.empty, nextRef = 0, unlinked = [], outbox = [(Ready, [])]\<rparr>"

definition pointer_of :: "wstate \<Rightarrow> ref \<Rightarrow> nat option" where
  "pointer_of s db = (case store s db of None \<Rightarrow> None | Some obj \<Rightarrow> db_pointer obj)"

definition filename_of :: "wstate \<Rightarrow> ref \<Rightarrow> string" where
  "filename_of s db = (case store s db of None \<Rightarrow> [] | Some obj \<Rightarrow> db_filename obj)"

text \<open>\<open>''@''+db.pointer\<close>: the pointer as a string.\<close>

definition pointer_string :: "nat option \<Rightarrow> string" where
  "pointer_string p = (case p of None \<Rightarrow> ''undefined'' | Some n \<Rightarrow> dec n)"

text \<open>
  \<open>getDbId(db)\<close>: the identifier recorded for the object, or a new one from the next
  sequence number and the pointer.
\<close>

definition mintDbId :: "ref \<Rightarrow> wstate \<Rightarrow> string \<times> wstate" where
  "mintDbId db s =
     (let n = Suc (idSeq s);
          ident = ''db#'' @ dec n @ ''@'' @ pointer_string (pointer_of s db)
      in (ident, s\<lparr>idSeq := n, idMap := (idMap s)(db \<mapsto> ident)\<rparr>))"

definition getDbId :: "ref \<Rightarrow> wstate \<Rightarrow> string \<times> wstate" where
  "getDbId db s =
     (case idMap s db of
        Some ident \<Rightarrow> if ident \<noteq> [] then (ident, s) else mintDbId db s
      | None \<Rightarrow> mintDbId db s)"

text \<open>\<open>wState.open(opt)\<close>: nothing after \<open>new DB\<close> runs when it throws.\<close>

definition wState_open :: "engine \<Rightarrow> jsval \<Rightarrow> wstate \<Rightarrow> (js_error + ref) \<times> wstate" where
  "wState_open eng filename s =
     (case new_DB eng filename of
        Inl err \<Rightarrow> (Inl err, s)
      | Inr (ptr, fname) \<Rightarrow>
          (let db = nextRef s;
               s1 = s\<lparr>store := (store s)(db \<mapsto> \<lparr>db_pointer = Some ptr, db_filename = fname\<rparr>),
                      nextRef := Suc db\<rparr>;
               (ident, s2) = getDbId db s1;
               s3 = s2\<lparr>dbs := (dbs s2)(ident \<mapsto> db)\<rparr>;
               s4 = (if defaultDb s3 = None then s3\<lparr>defaultDb := Some db\<rparr> else s3)
           in (Inr db, s4)))"

text \<open>\<open>db.close()\<close> of the OO API: the object loses its pointer.\<close>

definition db_close :: "ref \<Rightarrow> wstate \<Rightarrow> wstate" where
  "db_close db s =
     (case store s db of
        None \<Rightarrow> s
      | Some obj \<Rightarrow> s\<lparr>store := (store s)(db \<mapsto> obj\<lparr>db_pointer := None\<rparr>)\<rparr>)"

text \<open>\<open>wState.close(db, alsoUnlink)\<close>; a falsy \<open>db\<close> is \<open>None\<close>.\<close>

definition wState_close :: "engine \<Rightarrow> ref option \<Rightarrow> bool \<Rightarrow> wstate \<Rightarrow> wstate" where
  "wState_close eng dbo alsoUnlink s =
     (case dbo of
        None \<Rightarrow> s
      | Some db \<Rightarrow>
          (let (ident, s1) = getDbId db s;
               s2 = s1\<lparr>dbs := (dbs s1)(ident := None)\<rparr>;
               filename = db_fileName eng db;
               s3 = db_close db s2;
               s4 = (if defaultDb s3 = Some db then s3\<lparr>defaultDb := None\<rparr> else s3)
           in if alsoUnlink \<and> filename \<noteq> [] then s4\<lparr>unlinked := unlinked s4 @ [filename]\<rparr>
              else s4))"

text \<open>
  \<open>wState.post(msg, xferList)\<close>: with a non-empty transfer list the message goes out with
  a copy of it and the list is emptied. \<open>use_xfer\<close> says that \<open>wState.xfer\<close> was passed.
\<close>

definition post :: "message \<Rightarrow> bool \<Rightarrow> wstate \<Rightarrow> wstate" where
  "post msg use_xfer s =
     (if use_xfer \<and> xfer s \<noteq> [] then s\<lparr>outbox := outbox s @ [(msg, xfer s)], xfer := []\<rparr>
      else s\<lparr>outbox := outbox s @ [(msg, [])]\<rparr>)"

text \<open>\<open>wState.getDb(ident, require)\<close>: the identifier is used as a property key.\<close>

definition getDb :: "jsval \<Rightarrow> bool \<Rightarrow> wstate \<Rightarrow> js_error + ref option" where
  "getDb ident require s =
     (case dbs s (js_to_string ident) of
        Some db \<Rightarrow> Inr (Some db)
      | None \<Rightarrow> if require then Inl (toss [JStr ''Unknown (or closed) DB ID:'', ident])
                else Inr None)"

text \<open>\<open>affirmDbOpen(db = wState.defaultDb)\<close>: an \<open>undefined\<close> argument takes the default.\<close>

definition affirmDbOpen :: "ref option \<Rightarrow> wstate \<Rightarrow> js_error + ref" where
  "affirmDbOpen dbo s =
     (case (case dbo of None \<Rightarrow> defaultDb s | Some db \<Rightarrow> Some db) of
        None \<Rightarrow> Inl (toss [JStr ''DB is not opened.''])
      | Some db \<Rightarrow>
          (case pointer_of s db of
             None \<Rightarrow> Inl (toss [JStr ''DB is not opened.''])
           | Some p \<Rightarrow> if p \<noteq> 0 then Inr db else Inl (toss [JStr ''DB is not opened.''])))"

text \<open>
  \<open>getMsgDb(msgData, affirmExists)\<close>: \<open>lookupMsgDb\<close> is its first line,
  \<open>wState.getDb(msgData.dbId,false) || wState.defaultDb\<close>, which is all of
  \<open>getMsgDb(ev,false)\<close>; \<open>getMsgDb\<close> is the call with \<open>affirmExists\<close> left at \<open>true\<close>.
\<close>

definition lookupMsgDb :: "request \<Rightarrow> wstate \<Rightarrow> ref option" where
  "lookupMsgDb ev s =
     (case getDb (ev_dbId ev) False s of
        Inr (Some db) \<Rightarrow> Some db
      | _ \<Rightarrow> defaultDb s)"

definition getMsgDb :: "request \<Rightarrow> wstate \<Rightarrow> js_error + ref" where
  "getMsgDb ev s = affirmDbOpen (lookupMsgDb ev s) s"

text \<open>\<open>getDefaultDbId()\<close>: \<open>wState.defaultDb && getDbId(wState.defaultDb)\<close>.\<close>

definition getDefaultDbId :: "wstate \<Rightarrow> jsval \<times> wstate" where
  "getDefaultDbId s =
     (case defaultDb s of
        None \<Rightarrow> (JUndefined, s)
      | Some db \<Rightarrow> (let (ident, s1) = getDbId db s in (JStr ident, s1)))"

section \<open>The message handlers\<close>

text \<open>
  A handler returns what it returns or throws, the request as its in-place updates left it
  (\<open>exec\<close> writes into \<open>ev.args\<close>), and the state.
\<close>

type_synonym handled = "(js_error + jsobj) \<times> request \<times> wstate"

text \<open>
  \<open>ev.args || Object.create(null)\<close> as \<open>wMsgHandler.open\<close> reads it: a string has neither a
  \<open>simulateError\<close> nor a \<open>filename\<close> property.
\<close>

definition open_args :: "jsargs \<Rightarrow> jsobj" where
  "open_args a = (case a of ArgsObj obj \<Rightarrow> obj | _ \<Rightarrow> [])"

text \<open>\<open>x[0]\<close> on a value that is not \<open>undefined\<close> or \<open>null\<close>.\<close>

fun index0 :: "jsval \<Rightarrow> jsval" where
  "index0 (JStr (c # cs)) = JStr [c]"
| "index0 (JArray (x # xs)) = x"
| "index0 (JObject kvs) = get_prop kvs ''0''"
| "index0 v = JUndefined"

definition starts_with :: "string \<Rightarrow> string \<Rightarrow> bool" where
  "starts_with str p = (take (length p) str = p)"

definition open_filename :: "string \<Rightarrow> jsobj \<Rightarrow> jsval" where
  "open_filename pDir args =
     (let fn = get_prop args ''filename''
      in if \<not> truthy fn \<or> fn = JStr '':memory:'' then (if truthy fn then fn else JStr [])
         else if pDir \<noteq> [] then
           JStr (pDir @ (if index0 fn = JStr ''/'' then js_to_string fn
                         else ''/'' @ js_to_string fn))
         else fn)"

definition wMsgHandler_open :: "engine \<Rightarrow> request \<Rightarrow> wstate \<Rightarrow> handled" where
  "wMsgHandler_open eng ev s =
     (let args = open_args (ev_args ev)
      in if truthy (get_prop args ''simulateError'')
         then (Inl (toss [JStr ''Throwing because of simulateError flag.'']), ev, s)
         else
           (let pDir = persistent_dir eng
            in case wState_open eng (open_filename pDir args) s of
                 (Inl err, s1) \<Rightarrow> (Inl err, ev, s1)
               | (Inr db, s1) \<Rightarrow>
                   (let fname = filename_of s1 db;
                        (ident, s2) = getDbId db s1
                    in (Inr [(''filename'', JStr fname),
                             (''persistent'', JBool (pDir \<noteq> [] \<and> starts_with fname pDir)),
                             (''dbId'', JStr ident)], ev, s2))))"

text \<open>\<open>(ev.args && 'object'===typeof ev.args) ? !!ev.args.unlink : false\<close>.\<close>

definition close_unlink :: "jsargs \<Rightarrow> bool" where
  "close_unlink a = (case a of ArgsObj obj \<Rightarrow> truthy (get_prop obj ''unlink'') | _ \<Rightarrow> False)"

definition wMsgHandler_close :: "engine \<Rightarrow> request \<Rightarrow> wstate \<Rightarrow> handled" where
  "wMsgHandler_close eng ev s =
     (case lookupMsgDb ev s of
        None \<Rightarrow> (Inr [(''filename'', JUndefined), (''dbId'', JUndefined)], ev, s)
      | Some db \<Rightarrow>
          (let fname = filename_of s db;
               (ident, s1) = getDbId db s;
               s2 = wState_close eng (Some db) (close_unlink (ev_args ev)) s1
           in (Inr [(''filename'', JStr fname), (''dbId'', JStr ident)], ev, s2)))"

text \<open>
  \<open>rc\<close> of \<open>wMsgHandler.exec\<close>: \<open>{sql: ev.args}\<close> for a string, else
  \<open>ev.args || Object.create(null)\<close>. When \<open>ev.args\<close> is an object, \<open>rc\<close> is that object and
  every write to \<open>rc\<close> shows in \<open>ev\<close>.
\<close>

definition exec_rc :: "jsargs \<Rightarrow> jsobj" where
  "exec_rc a = (case a of ArgsStr q \<Rightarrow> [(''sql'', JStr q)] | ArgsAbsent \<Rightarrow> [] | ArgsObj obj \<Rightarrow> obj)"

definition with_rc :: "request \<Rightarrow> jsobj \<Rightarrow> request" where
  "with_rc ev rc = (case ev_args ev of ArgsObj obj \<Rightarrow> ev\<lparr>ev_args := ArgsObj rc\<rparr> | _ \<Rightarrow> ev)"

definition is_array :: "jsval \<Rightarrow> bool" where
  "is_array v = (case v of JArray xs \<Rightarrow> True | _ \<Rightarrow> False)"

definition is_function :: "jsval \<Rightarrow> bool" where
  "is_function v = (case v of JFunction t \<Rightarrow> True | _ \<Rightarrow> False)"

text \<open>
  The installed callback
  \<open>(row)=>wState.post({type: callbackMsgType, rowNumber:++rowNumber, row:row}, wState.xfer)\<close>,
  with the counter it closes over passed in and out.
\<close>

definition row_callback :: "string \<Rightarrow> nat \<Rightarrow> jsval \<Rightarrow> wstate \<Rightarrow> nat \<times> wstate" where
  "row_callback callbackMsgType rowNumber row s =
     (Suc rowNumber, post (RowMsg (JStr callbackMsgType) (Some (Suc rowNumber)) row) True s)"

text \<open>
  Modelled from the spec: \<open>db.exec\<close> of the OO API is not part of this file. It
  "invokes a row callback synchronously" for each row and "mutates
  \<open>options.resultRows\<close>/\<open>columnNames\<close> in place"; a blob column of a row is handed to
  \<open>db._blobXfer\<close> when that is installed. \<open>exec_rows\<close> runs the rows of the outcome through
  the callback when it is a function; \<open>populate\<close> is the in-place update.
\<close>

fun exec_rows :: "bool \<Rightarrow> jsval \<Rightarrow> nat \<Rightarrow> (nat list \<times> jsval) list \<Rightarrow> wstate \<Rightarrow> wstate" where
  "exec_rows blobXfer cb rowNumber [] s = s"
| "exec_rows blobXfer cb rowNumber ((bufs, row) # rest) s =
     (let s1 = (if blobXfer then s\<lparr>xfer := xfer s @ bufs\<rparr> else s)
      in case cb of
           JFunction t \<Rightarrow>
             (let (n, s2) = row_callback t rowNumber row s1
              in exec_rows blobXfer cb n rest s2)
         | _ \<Rightarrow> exec_rows blobXfer cb rowNumber rest s1)"

definition populate :: "exec_outcome \<Rightarrow> jsobj \<Rightarrow> jsobj" where
  "populate out rc =
     (let rc1 = (case ex_resultRows out of None \<Rightarrow> rc | Some v \<Rightarrow> set_prop rc ''resultRows'' v)
      in case ex_columnNames out of None \<Rightarrow> rc1 | Some v \<Rightarrow> set_prop rc1 ''columnNames'' v)"

text \<open>
  The two writes to \<open>rc\<close> before the engine runs: the default \<open>rowMode\<close>, and the callback
  installed in place of a string \<open>rc.callback\<close>.
\<close>

definition default_rowMode :: "jsobj \<Rightarrow> jsobj" where
  "default_rowMode rc =
     (if get_prop rc ''rowMode'' = JUndefined then set_prop rc ''rowMode'' (JStr ''array'') else rc)"

definition install_callback :: "jsobj \<Rightarrow> jsobj" where
  "install_callback rc =
     (case get_prop rc ''callback'' of
        JStr t \<Rightarrow> set_prop rc ''callback'' (JFunction t)
      | _ \<Rightarrow> rc)"

text \<open>
  The part of \<open>wMsgHandler.exec\<close> from \<open>db._blobXfer\<close> to the end of \<open>finally\<close>, for the
  handle \<open>db\<close> that \<open>getMsgDb\<close> gave: what is returned or thrown, \<open>rc\<close> as it is left, and the
  state.
\<close>

definition exec_on :: "engine \<Rightarrow> ref \<Rightarrow> jsobj \<Rightarrow> wstate \<Rightarrow> (js_error + jsobj) \<times> jsobj \<times> wstate" where
  "exec_on eng db rc1 s =
     (let callbackMsgType = get_prop rc1 ''callback'';
          blobXfer = (truthy callbackMsgType \<or> is_array (get_prop rc1 ''resultRows''));
          rc2 = install_callback rc1;
          out = db_exec eng (pointer_of s db) rc2;
          s1 = exec_rows blobXfer (get_prop rc2 ''callback'') 0 (ex_rows out) s;
          rc3 = populate out rc2
      in case ex_error out of
           None \<Rightarrow>
             (let (rc4, s2) =
                    (if is_function (get_prop rc3 ''callback'')
                     then (set_prop rc3 ''callback'' callbackMsgType,
                           post (RowMsg callbackMsgType None JUndefined) False s1)
                     else (rc3, s1));
                  rc5 = (if truthy (get_prop rc4 ''callback'')
                         then set_prop rc4 ''callback'' callbackMsgType else rc4)
              in (Inr rc5, rc5, s2))
         | Some err \<Rightarrow>
             (let rc5 = (if truthy (get_prop rc3 ''callback'')
                         then set_prop rc3 ''callback'' callbackMsgType else rc3)
              in (Inl err, rc5, s1)))"

definition wMsgHandler_exec :: "engine \<Rightarrow> request \<Rightarrow> wstate \<Rightarrow> handled" where
  "wMsgHandler_exec eng ev s =
     (let rc0 = exec_rc (ev_args ev)
      in if get_prop rc0 ''rowMode'' \<noteq> JUndefined \<and> get_prop rc0 ''rowMode'' = JStr ''stmt''
         then (Inl (toss [JStr ''Invalid rowMode for 'exec': stmt mode'',
                          JStr ''does not work in the Worker API.'']), ev, s)
         else
           (let rc1 = default_rowMode rc0
            in case getMsgDb ev s of
                 Inl err \<Rightarrow> (Inl err, with_rc ev rc1, s)
               | Inr db \<Rightarrow>
                   (case exec_on eng db rc1 s of
                      (res, rc5, s2) \<Rightarrow> (res, with_rc ev rc5, s2))))"

text \<open>\<open>'config-get'\<close>: the two allowed keys, where \<open>sqlite3.config\<close> has them.\<close>

fun copy_config :: "jsobj \<Rightarrow> string list \<Rightarrow> jsobj \<Rightarrow> jsobj" where
  "copy_config src [] rc = rc"
| "copy_config src (k # ks) rc =
     copy_config src ks (case map_of src k of None \<Rightarrow> rc | Some v \<Rightarrow> set_prop rc k v)"

definition wMsgHandler_config_get :: "engine \<Rightarrow> request \<Rightarrow> wstate \<Rightarrow> handled" where
  "wMsgHandler_config_get eng ev s =
     (let rc = copy_config (config eng) [''persistentDirName'', ''bigIntEnabled''] []
      in (Inr (set_prop rc ''persistenceEnabled'' (JBool (persistent_dir eng \<noteq> []))), ev, s))"

definition wMsgHandler_export :: "engine \<Rightarrow> request \<Rightarrow> wstate \<Rightarrow> handled" where
  "wMsgHandler_export eng ev s =
     (Inl (toss [JStr ''export() requires reimplementing for portability reasons.'']), ev, s)"

definition wMsgHandler_toss :: "engine \<Rightarrow> request \<Rightarrow> wstate \<Rightarrow> handled" where
  "wMsgHandler_toss eng ev s = (Inl (toss [JStr ''Testing worker exception'']), ev, s)"

section \<open>The dispatcher\<close>

text \<open>The \<open>try\<close> block of \<open>self.onmessage\<close>: the handler named by \<open>ev.type\<close>, or a throw.\<close>

definition dispatch :: "engine \<Rightarrow> request \<Rightarrow> wstate \<Rightarrow> handled" where
  "dispatch eng ev s =
     (if ev_type ev = ''open'' then wMsgHandler_open eng ev s
      else if ev_type ev = ''close'' then wMsgHandler_close eng ev s
      else if ev_type ev = ''exec'' then wMsgHandler_exec eng ev s
      else if ev_type ev = ''config-get'' then wMsgHandler_config_get eng ev s
      else if ev_type ev = ''export'' then wMsgHandler_export eng ev s
      else if ev_type ev = ''toss'' then wMsgHandler_toss eng ev s
      else (Inl (toss [JStr ''Unknown db worker message type:'', JStr (ev_type ev)]), ev, s))"

text \<open>\<open>result.dbId\<close>: the object of the \<open>catch\<close> block has no such property.\<close>

definition payload_dbId :: "payload \<Rightarrow> jsval" where
  "payload_dbId p = (case p of Result obj \<Rightarrow> get_prop obj ''dbId'' | ErrorResult op m c i \<Rightarrow> JUndefined)"

text \<open>
  \<open>self.onmessage\<close>. The two \<open>performance.now()\<close> stamps and \<open>err.stack\<close> come from the
  runtime and are left out of the response.
\<close>

definition onmessage :: "engine \<Rightarrow> request \<Rightarrow> wstate \<Rightarrow> wstate" where
  "onmessage eng ev s =
     (let dbId = ev_dbId ev;
          (res, ev1, s1) = dispatch eng ev s;
          evType = (case res of Inl err \<Rightarrow> ''error'' | Inr obj \<Rightarrow> ev_type ev);
          result = (case res of
                      Inl err \<Rightarrow> ErrorResult (ev_type ev) (err_message err) (err_name err) ev1
                    | Inr obj \<Rightarrow> Result obj);
          (dbId1, s2) =
             (if \<not> truthy dbId
              then (if truthy (payload_dbId result) then (payload_dbId result, s1)
                    else getDefaultDbId s1)
              else (dbId, s1))
      in post (Response \<lparr>rsp_type = evType, rsp_dbId = dbId1, rsp_messageId = ev_messageId ev1,
                          rsp_departureTime = ev_departureTime ev1, rsp_result = result\<rparr>)
           True s2)"

text \<open>A run of the worker: the messages in arrival order, each with what the engine does.\<close>

fun run :: "(engine \<times> request) list \<Rightarrow> wstate \<Rightarrow> wstate" where
  "run [] s = s"
| "run ((eng, ev) # rest) s = run rest (onmessage eng ev s)"

section \<open>Observations on the posted messages\<close>

text \<open>The response envelopes among the posted messages, in order.\<close>

fun responses :: "posted list \<Rightarrow> response list" where
  "responses [] = []"
| "responses ((Response r, x) # ps) = r # responses ps"
| "responses (p # ps) = responses ps"

section \<open>Concrete collaborators and requests\<close>

text \<open>
  An engine whose every \<open>new DB\<close> lands on the same address 7 and whose \<open>exec\<close> yields two
  rows; one whose \<open>new DB\<close> throws; one whose \<open>exec\<close> throws after the first row.
\<close>

definition two_rows :: exec_outcome where
  "two_rows = \<lparr>ex_rows = [([], JNum (Safe 10)), ([], JNull)], ex_resultRows = None,
     ex_columnNames = None, ex_error = None\<rparr>"

definition eng_ok :: engine where
  "eng_ok = \<lparr>persistent_dir = [], new_DB = (\<lambda>f. Inr (7, js_to_string f)),
     db_fileName = (\<lambda>db. []), db_exec = (\<lambda>p rc. two_rows), config = []\<rparr>"

definition eng_open_fails :: engine where
  "eng_open_fails = eng_ok\<lparr>new_DB := (\<lambda>f. Inl (JsError ''SQLite3Error'' ''unable to open''))\<rparr>"

definition eng_exec_fails :: engine where
  "eng_exec_fails = eng_ok\<lparr>db_exec := (\<lambda>p rc. two_rows\<lparr>ex_rows := [([], JNum (Safe 10))],
     ex_error := Some (JsError ''SQLite3Error'' ''no such table'')\<rparr>)\<rparr>"

definition request_of :: "string \<Rightarrow> jsargs \<Rightarrow> jsval \<Rightarrow> request" where
  "request_of t a i = \<lparr>ev_type = t, ev_args = a, ev_dbId = i, ev_messageId = JNum (Safe 1),
     ev_departureTime = JUndefined\<rparr>"

definition stmt_options :: jsobj where
  "stmt_options = [(''sql'', JStr ''select 1''), (''rowMode'', JStr ''stmt''), (''callback'', JStr ''row'')]"

text \<open>
  Row messages of type \<open>t\<close> for the given rows, numbered upwards from \<open>n + 1\<close>, and the
  end-of-results message \<open>{type: t, rowNumber: null, row: undefined}\<close>.
\<close>

fun numbered_rows :: "string \<Rightarrow> nat \<Rightarrow> jsval list \<Rightarrow> message list" where
  "numbered_rows t n [] = []"
| "numbered_rows t n (row # rows) =
     RowMsg (JStr t) (Some (Suc n)) row # numbered_rows t (Suc n) rows"

definition end_of_rows :: "string \<Rightarrow> message" where
  "end_of_rows t = RowMsg (JStr t) None JUndefined"

definition row_options :: jsobj where
  "row_options = [(''sql'', JStr ''select a from t''), (''callback'', JStr ''row'')]"

text \<open>The state after one successful \<open>open\<close>, and after a second one.\<close>

definition opened_once :: wstate where
  "opened_once = onmessage eng_ok (request_of ''open'' ArgsAbsent JUndefined) wInit"

definition opened_twice :: wstate where
  "opened_twice = onmessage eng_ok (request_of ''open'' ArgsAbsent JUndefined) opened_once"

text \<open>
  The options object a response echoes: the handler's result, or \<open>input.args\<close> of the
  error object when the request had an options object.
\<close>

definition echoed_options :: "payload \<Rightarrow> jsobj option" where
  "echoed_options p =
     (case p of
        Result rc \<Rightarrow> Some rc
      | ErrorResult op m c input \<Rightarrow> (case ev_args input of ArgsObj rc \<Rightarrow> Some rc | _ \<Rightarrow> None))"

section \<open>The registry and its invariant\<close>

text \<open>
  The registry part of the state: the default handle, the identifier sequence, both maps,
  and the \<open>DB\<close> objects.
\<close>

definition registry ::
  "wstate \<Rightarrow> ref option \<times> nat \<times> (ref \<rightharpoonup> string) \<times> (string \<rightharpoonup> ref) \<times> (ref \<rightharpoonup> DB) \<times> ref" where
  "registry s = (defaultDb s, idSeq s, idMap s, dbs s, store s, nextRef s)"

text \<open>An identifier \<open>getDbId\<close> made with a sequence number from 1 to \<open>n\<close>.\<close>

definition minted :: "nat \<Rightarrow> string \<Rightarrow> bool" where
  "minted n ident \<longleftrightarrow> (\<exists>k p. 0 < k \<and> k \<le> n \<and> ident = ''db#'' @ dec k @ ''@'' @ p)"

text \<open>
  What holds of the registry between messages: \<open>idMap\<close> knows only objects that exist
  and gives them minted identifiers; \<open>dbs\<close> is \<open>idMap\<close> backwards on the open handles; the
  default handle is one of the open handles.
\<close>

definition registry_ok :: "wstate \<Rightarrow> bool" where
  "registry_ok s \<longleftrightarrow>
     (\<forall>db ident. idMap s db = Some ident \<longrightarrow> db < nextRef s \<and> minted (idSeq s) ident) \<and>
     (\<forall>ident db. dbs s ident = Some db \<longrightarrow> idMap s db = Some ident) \<and>
     (\<forall>db. defaultDb s = Some db \<longrightarrow> (\<exists>ident. dbs s ident = Some db))"

text \<open>The \<open>dbId\<close> that each successful \<open>open\<close> returned, from the responses in order.\<close>

fun opened_ids :: "response list \<Rightarrow> jsval list" where
  "opened_ids [] = []"
| "opened_ids (r # rs) =
     (if rsp_type r = ''open'' then payload_dbId (rsp_result r) # opened_ids rs
      else opened_ids rs)"



text \<open>The identifier \<open>getDbId\<close> makes next, for an object with pointer \<open>p\<close>.\<close>

definition next_id :: "wstate \<Rightarrow> nat \<Rightarrow> string" where
  "next_id s p = ''db#'' @ dec (Suc (idSeq s)) @ ''@'' @ dec p"

text \<open>
  The registry after \<open>wState.open\<close> made an object with pointer \<open>p\<close>, and after
  \<open>wState.close\<close> closed the handle \<open>db\<close> registered as \<open>ident\<close>.
\<close>

definition registry_opened ::
  "wstate \<Rightarrow> nat \<Rightarrow> string \<Rightarrow> ref option \<times> nat \<times> (ref \<rightharpoonup> string) \<times> (string \<rightharpoonup> ref) \<times> (ref \<rightharpoonup> DB) \<times> ref" where
  "registry_opened s p fn =
     ((case defaultDb s of None \<Rightarrow> Some (nextRef s) | Some d \<Rightarrow> Some d),
      Suc (idSeq s), (idMap s)(nextRef s \<mapsto> next_id s p),
      (dbs s)(next_id s p \<mapsto> nextRef s),
      (store s)(nextRef s \<mapsto> \<lparr>db_pointer = Some p, db_filename = fn\<rparr>), Suc (nextRef s))"

definition registry_closed ::
  "wstate \<Rightarrow> ref \<Rightarrow> string \<Rightarrow> ref option \<times> nat \<times> (ref \<rightharpoonup> string) \<times> (string \<rightharpoonup> ref) \<times> (ref \<rightharpoonup> DB) \<times> ref" where
  "registry_closed s db ident =
     ((if defaultDb s = Some db then None else defaultDb s), idSeq s, idMap s,
      (dbs s)(ident := None), store (db_close db s), nextRef s)"

text \<open>Requests and runs used as concrete instances.\<close>

definition open_request :: request where
  "open_request = request_of ''open'' ArgsAbsent JUndefined"

definition close_request :: "string \<Rightarrow> request" where
  "close_request ident = request_of ''close'' ArgsAbsent (JStr ident)"

definition closed_second :: wstate where
  "closed_second = onmessage eng_ok (close_request ''db#2@7'') opened_twice"


section \<open>Posting and the response envelope\<close>

lemma responses_append: "responses (xs @ ys) = responses xs @ responses ys"
  by (induction xs rule: responses.induct) simp_all

lemma responses_post_row: "responses (outbox (post (RowMsg t n r) u s)) = responses (outbox s)"
  by (simp add: post_def responses_append)

lemma responses_post_response:
  "responses (outbox (post (Response r) u s)) = responses (outbox s) @ [r]"
  by (simp add: post_def responses_append)

lemma responses_exec_rows:
  "responses (outbox (exec_rows b cb n rows s)) = responses (outbox s)"
proof (induction rows arbitrary: n s b cb)
  case Nil
  then show ?case by simp
next
  case (Cons a rows)
  obtain bufs row where a: "a = (bufs, row)" by (cases a)
  show ?case
    by (cases cb) (simp_all add: a Cons Let_def row_callback_def responses_post_row)
qed

lemma outbox_getDbId: "outbox (snd (getDbId db s)) = outbox s"
  by (simp add: getDbId_def mintDbId_def Let_def split: option.splits)

lemma outbox_wState_open: "outbox (snd (wState_open eng f s)) = outbox s"
  by (simp add: wState_open_def getDbId_def mintDbId_def Let_def
      split: sum.splits option.splits prod.splits)

lemma outbox_wState_close: "outbox (wState_close eng dbo u s) = outbox s"
  by (simp add: wState_close_def db_close_def getDbId_def mintDbId_def Let_def
      split: sum.splits option.splits prod.splits)

lemma responses_open:
  "responses (outbox (snd (snd (wMsgHandler_open eng ev s)))) = responses (outbox s)"
  apply (simp add: wMsgHandler_open_def Let_def split: prod.splits sum.splits)
  by (metis outbox_wState_open outbox_getDbId snd_conv)

lemma responses_close:
  "responses (outbox (snd (snd (wMsgHandler_close eng ev s)))) = responses (outbox s)"
  apply (simp add: wMsgHandler_close_def Let_def split: prod.splits sum.splits option.splits)
  by (metis outbox_wState_close outbox_getDbId snd_conv)

lemma responses_exec_on:
  "responses (outbox (snd (snd (exec_on eng db rc s)))) = responses (outbox s)"
  by (simp add: exec_on_def Let_def responses_exec_rows responses_post_row split: option.splits)

lemma responses_exec:
  "responses (outbox (snd (snd (wMsgHandler_exec eng ev s)))) = responses (outbox s)"
proof -
  have "responses (outbox s2) = responses (outbox s)"
    if "exec_on eng db rc s = (res, rc5, s2)" for db rc res rc5 s2
    using responses_exec_on [of eng db rc s] that by simp
  then show ?thesis
    by (simp add: wMsgHandler_exec_def Let_def split: prod.splits sum.splits)
qed

lemma responses_dispatch:
  "responses (outbox (snd (snd (dispatch eng ev s)))) = responses (outbox s)"
  by (simp add: dispatch_def responses_open responses_close responses_exec
      wMsgHandler_config_get_def wMsgHandler_export_def wMsgHandler_toss_def Let_def)

lemma messageId_with_rc: "ev_messageId (with_rc ev rc) = ev_messageId ev"
  by (simp add: with_rc_def split: jsargs.splits)

lemma messageId_open: "ev_messageId (fst (snd (wMsgHandler_open eng ev s))) = ev_messageId ev"
  by (simp add: wMsgHandler_open_def Let_def split: prod.splits sum.splits)

lemma messageId_close: "ev_messageId (fst (snd (wMsgHandler_close eng ev s))) = ev_messageId ev"
  by (simp add: wMsgHandler_close_def Let_def split: prod.splits option.splits)

lemma messageId_exec: "ev_messageId (fst (snd (wMsgHandler_exec eng ev s))) = ev_messageId ev"
  by (simp add: wMsgHandler_exec_def Let_def messageId_with_rc split: prod.splits sum.splits)

lemma messageId_dispatch: "ev_messageId (fst (snd (dispatch eng ev s))) = ev_messageId ev"
  by (simp add: dispatch_def messageId_open messageId_close messageId_exec
      wMsgHandler_config_get_def wMsgHandler_export_def wMsgHandler_toss_def Let_def)

lemma outbox_getDefaultDbId: "outbox (snd (getDefaultDbId s)) = outbox s"
proof (cases "defaultDb s")
  case None
  then show ?thesis by (simp add: getDefaultDbId_def)
next
  case (Some db)
  then show ?thesis
    using outbox_getDbId [of db s]
    by (simp add: getDefaultDbId_def case_prod_beta)
qed

text \<open>
  C9. Each inbound message adds exactly one response envelope to what was posted, and its
  \<open>messageId\<close> is the request's \<open>messageId\<close>, whatever the handler did (returned or threw)
  and whatever the value is (\<open>JUndefined\<close> when the request has none).
\<close>

theorem response_mirrors_messageId:
  "\<exists>r. responses (outbox (onmessage eng ev s)) = responses (outbox s) @ [r]
       \<and> rsp_messageId r = ev_messageId ev"
proof -
  obtain res ev1 s1 where d: "dispatch eng ev s = (res, ev1, s1)"
    by (cases "dispatch eng ev s") auto
  have out: "responses (outbox s1) = responses (outbox s)"
    using responses_dispatch [of eng ev s] by (simp add: d)
  have mid: "ev_messageId ev1 = ev_messageId ev"
    using messageId_dispatch [of eng ev s] by (simp add: d)
  obtain v s2 where g: "getDefaultDbId s1 = (v, s2)"
    by (cases "getDefaultDbId s1") auto
  have out2: "responses (outbox s2) = responses (outbox s)"
    using outbox_getDefaultDbId [of s1] by (simp add: g out)
  show ?thesis
    by (simp add: onmessage_def d g Let_def responses_post_response out out2 mid)
qed

theorem response_mirrors_messageId_witness:
  "\<exists>r. responses (outbox (onmessage eng_ok (request_of ''toss'' ArgsAbsent JUndefined) wInit))
         = responses (outbox wInit) @ [r]
       \<and> rsp_messageId r = JNum (Safe 1)"
  using response_mirrors_messageId [of eng_ok "request_of ''toss'' ArgsAbsent JUndefined" wInit]
  by (simp add: request_of_def)

section \<open>The row mode that cannot cross the boundary\<close>

lemma toss_stmt:
  "toss [JStr ''Invalid rowMode for 'exec': stmt mode'', JStr ''does not work in the Worker API.'']
   = JsError ''Error'' ''Invalid rowMode for 'exec': stmt mode does not work in the Worker API.''"
  by (simp add: toss_def join_element_def)

text \<open>
  C7. An \<open>exec\<close> request whose options object has \<open>rowMode: 'stmt'\<close> is answered by exactly
  one message, an \<open>error\<close> response naming the operation \<open>exec\<close> and the invalid row mode, in
  every state (whether or not a handle would resolve) and whatever else the options hold.
\<close>

theorem exec_stmt_rowMode_fails:
  assumes "ev_type ev = ''exec''"
    and "ev_args ev = ArgsObj opts"
    and "get_prop opts ''rowMode'' = JStr ''stmt''"
  shows "\<exists>r x. outbox (onmessage eng ev s) = outbox s @ [(Response r, x)]
           \<and> rsp_type r = ''error''
           \<and> rsp_result r = ErrorResult ''exec''
                ''Invalid rowMode for 'exec': stmt mode does not work in the Worker API.''
                ''Error'' ev"
proof -
  have d: "dispatch eng ev s =
      (Inl (JsError ''Error''
         ''Invalid rowMode for 'exec': stmt mode does not work in the Worker API.''), ev, s)"
    using assms by (simp add: dispatch_def wMsgHandler_exec_def exec_rc_def toss_stmt)
  obtain v s2 where g: "getDefaultDbId s = (v, s2)"
    by (cases "getDefaultDbId s") auto
  have o2: "outbox s2 = outbox s"
    using outbox_getDefaultDbId [of s] by (simp add: g)
  show ?thesis
    using assms by (simp add: onmessage_def d g Let_def post_def payload_dbId_def o2)
qed

theorem exec_stmt_rowMode_fails_witness:
  "ev_type (request_of ''exec'' (ArgsObj stmt_options) (JStr ''db#9@9'')) = ''exec''
   \<and> get_prop stmt_options ''rowMode'' = JStr ''stmt''
   \<and> (\<exists>r x. outbox (onmessage eng_ok (request_of ''exec'' (ArgsObj stmt_options) (JStr ''db#9@9'')) wInit)
            = outbox wInit @ [(Response r, x)]
         \<and> rsp_type r = ''error''
         \<and> rsp_result r = ErrorResult ''exec''
              ''Invalid rowMode for 'exec': stmt mode does not work in the Worker API.''
              ''Error'' (request_of ''exec'' (ArgsObj stmt_options) (JStr ''db#9@9'')))"
  using exec_stmt_rowMode_fails [of "request_of ''exec'' (ArgsObj stmt_options) (JStr ''db#9@9'')"
      stmt_options eng_ok wInit]
  by (simp add: request_of_def stmt_options_def get_prop_def)

section \<open>Streaming rows\<close>

lemma get_prop_set_prop:
  "get_prop (set_prop rc k v) k' = (if k' = k then v else get_prop rc k')"
  by (induction rc k v rule: set_prop.induct) (auto simp add: get_prop_def)

lemma get_prop_populate_callback:
  "get_prop (populate out rc) ''callback'' = get_prop rc ''callback''"
  by (simp add: populate_def Let_def get_prop_set_prop split: option.splits)

lemma callback_default_rowMode:
  "get_prop (default_rowMode rc) ''callback'' = get_prop rc ''callback''"
  by (simp add: default_rowMode_def get_prop_set_prop)

lemma messages_exec_rows_function:
  "map fst (outbox (exec_rows b (JFunction t) n rows s))
   = map fst (outbox s) @ numbered_rows t n (map snd rows)"
proof (induction rows arbitrary: n s)
  case Nil
  then show ?case by simp
next
  case (Cons a rows)
  obtain bufs row where a: "a = (bufs, row)" by (cases a)
  show ?case
    by (simp add: a Cons Let_def row_callback_def post_def)
qed

lemma exec_on_streaming:
  assumes "get_prop rc ''callback'' = JStr t"
    and "out = db_exec eng (pointer_of s db) (install_callback rc)"
  shows "map fst (outbox (snd (snd (exec_on eng db rc s))))
         = map fst (outbox s) @ numbered_rows t 0 (map snd (ex_rows out))
           @ (if ex_error out = None then [end_of_rows t] else [])"
    and "get_prop (fst (snd (exec_on eng db rc s))) ''callback'' = JStr t"
    and "fst (exec_on eng db rc s)
         = (case ex_error out of None \<Rightarrow> Inr (fst (snd (exec_on eng db rc s)))
            | Some err \<Rightarrow> Inl err)"
proof -
  have cb: "get_prop (install_callback rc) ''callback'' = JFunction t"
    using assms(1) by (simp add: install_callback_def get_prop_set_prop)
  show "map fst (outbox (snd (snd (exec_on eng db rc s))))
         = map fst (outbox s) @ numbered_rows t 0 (map snd (ex_rows out))
           @ (if ex_error out = None then [end_of_rows t] else [])"
    using assms cb
    by (simp add: exec_on_def Let_def get_prop_populate_callback is_function_def
        messages_exec_rows_function post_def end_of_rows_def split: option.splits)
  show "get_prop (fst (snd (exec_on eng db rc s))) ''callback'' = JStr t"
    using assms cb
    by (simp add: exec_on_def Let_def get_prop_populate_callback is_function_def
        get_prop_set_prop split: option.splits)
  show "fst (exec_on eng db rc s)
         = (case ex_error out of None \<Rightarrow> Inr (fst (snd (exec_on eng db rc s)))
            | Some err \<Rightarrow> Inl err)"
    using assms cb
    by (simp add: exec_on_def Let_def get_prop_populate_callback is_function_def
        split: option.splits)
qed

text \<open>What \<open>self.onmessage\<close> posts after the handler: one response, built from its outcome.\<close>

lemma onmessage_outbox:
  assumes "dispatch eng ev s = (res, ev1, s1)"
  shows "\<exists>d x. outbox (onmessage eng ev s) = outbox s1 @
           [(Response \<lparr>rsp_type = (case res of Inl err \<Rightarrow> ''error'' | Inr obj \<Rightarrow> ev_type ev),
               rsp_dbId = d, rsp_messageId = ev_messageId ev1,
               rsp_departureTime = ev_departureTime ev1,
               rsp_result = (case res of
                      Inl err \<Rightarrow> ErrorResult (ev_type ev) (err_message err) (err_name err) ev1
                    | Inr obj \<Rightarrow> Result obj)\<rparr>, x)]"
proof -
  obtain v s2 where g: "getDefaultDbId s1 = (v, s2)"
    by (cases "getDefaultDbId s1") auto
  have o2: "outbox s2 = outbox s1"
    using outbox_getDefaultDbId [of s1] by (simp add: g)
  show ?thesis
    by (simp add: onmessage_def assms g Let_def post_def o2)
qed

lemmas eval_defs = onmessage_def dispatch_def wMsgHandler_open_def wMsgHandler_close_def
  wMsgHandler_exec_def exec_on_def open_args_def open_filename_def get_prop_def wState_open_def
  wState_close_def db_close_def close_unlink_def lookupMsgDb_def getMsgDb_def getDb_def
  affirmDbOpen_def getDbId_def mintDbId_def pointer_string_def pointer_of_def filename_of_def
  starts_with_def payload_dbId_def post_def getDefaultDbId_def exec_rc_def with_rc_def
  default_rowMode_def install_callback_def populate_def is_array_def is_function_def
  row_callback_def toss_def join_element_def dec.simps digit_char_def Let_def
  eng_ok_def eng_open_fails_def eng_exec_fails_def two_rows_def request_of_def wInit_def

lemma opened_once_eval:
  "opened_once = \<lparr>defaultDb = Some 0, idSeq = 1, idMap = [0 \<mapsto> ''db#1@7''], xfer = [],
     dbs = [''db#1@7'' \<mapsto> 0], store = [0 \<mapsto> \<lparr>db_pointer = Some 7, db_filename = []\<rparr>],
     nextRef = 1, unlinked = [],
     outbox = [(Ready, []),
       (Response \<lparr>rsp_type = ''open'', rsp_dbId = JStr ''db#1@7'', rsp_messageId = JNum (Safe 1),
          rsp_departureTime = JUndefined,
          rsp_result = Result [(''filename'', JStr []), (''persistent'', JBool False),
                               (''dbId'', JStr ''db#1@7'')]\<rparr>, [])]\<rparr>"
  by (simp add: opened_once_def eval_defs)

text \<open>
  C1, as the code has it. For an \<open>exec\<close> request whose options object has a string
  \<open>callback\<close> \<open>t\<close>, whose row mode is not \<open>stmt\<close> and whose handle resolves: the messages posted
  are the rows the engine produced, as row messages of type \<open>t\<close> numbered 1..N in order; then
  the end-of-results message (\<open>rowNumber: null\<close>, \<open>row: undefined\<close>) exactly once when the
  engine's call returned, also for N = 0, and no such message when it threw; then the
  response, which is the \<open>exec\<close> response when the call returned and the \<open>error\<close> response
  carrying the engine's error when it threw.
\<close>

theorem exec_streaming_messages:
  assumes "ev_type ev = ''exec''"
    and "ev_args ev = ArgsObj opts"
    and "get_prop opts ''callback'' = JStr t"
    and "get_prop opts ''rowMode'' \<noteq> JStr ''stmt''"
    and "getMsgDb ev s = Inr db"
    and "out = db_exec eng (pointer_of s db) (install_callback (default_rowMode opts))"
  shows "\<exists>r. map fst (outbox (onmessage eng ev s))
           = map fst (outbox s) @ numbered_rows t 0 (map snd (ex_rows out))
             @ (if ex_error out = None then [end_of_rows t] else []) @ [Response r]
         \<and> rsp_type r = (if ex_error out = None then ''exec'' else ''error'')
         \<and> (\<forall>err. ex_error out = Some err \<longrightarrow>
               (\<exists>input. rsp_result r
                  = ErrorResult ''exec'' (err_message err) (err_name err) input))"
proof -
  obtain res rc5 s2 where e: "exec_on eng db (default_rowMode opts) s = (res, rc5, s2)"
    by (cases "exec_on eng db (default_rowMode opts) s") auto
  have cb: "get_prop (default_rowMode opts) ''callback'' = JStr t"
    using assms(3) by (simp add: callback_default_rowMode)
  have o: "map fst (outbox s2) = map fst (outbox s) @ numbered_rows t 0 (map snd (ex_rows out))
             @ (if ex_error out = None then [end_of_rows t] else [])"
    using exec_on_streaming(1) [OF cb assms(6)] by (simp add: e)
  have res: "res = (case ex_error out of None \<Rightarrow> Inr rc5 | Some err \<Rightarrow> Inl err)"
  proof (cases "ex_error out")
    case None
    then show ?thesis
      using exec_on_streaming(3) [where eng=eng and s=s and db=db, OF cb assms(6)]
      by (simp add: e)
  next
    case (Some err)
    then show ?thesis
      using exec_on_streaming(3) [where eng=eng and s=s and db=db, OF cb assms(6)]
      by (simp add: e)
  qed
  have d: "dispatch eng ev s = (res, with_rc ev rc5, s2)"
    using assms(1,2,4,5) by (simp add: dispatch_def wMsgHandler_exec_def exec_rc_def e)
  obtain dd x where p: "outbox (onmessage eng ev s) = outbox s2 @
           [(Response \<lparr>rsp_type = (case res of Inl err \<Rightarrow> ''error'' | Inr obj \<Rightarrow> ev_type ev),
               rsp_dbId = dd, rsp_messageId = ev_messageId (with_rc ev rc5),
               rsp_departureTime = ev_departureTime (with_rc ev rc5),
               rsp_result = (case res of
                      Inl err \<Rightarrow> ErrorResult (ev_type ev) (err_message err) (err_name err)
                                  (with_rc ev rc5)
                    | Inr obj \<Rightarrow> Result obj)\<rparr>, x)]"
    using onmessage_outbox [OF d] by blast
  show ?thesis
  proof (cases "ex_error out")
    case None
    then show ?thesis using o res assms(1) by (simp add: p)
  next
    case (Some err)
    then show ?thesis using o res assms(1) by (simp add: p)
  qed
qed

theorem exec_streaming_messages_witness:
  "get_prop row_options ''callback'' = JStr ''row''
   \<and> get_prop row_options ''rowMode'' \<noteq> JStr ''stmt''
   \<and> getMsgDb (request_of ''exec'' (ArgsObj row_options) JUndefined) opened_once = Inr 0
   \<and> two_rows = db_exec eng_ok (pointer_of opened_once 0) (install_callback (default_rowMode row_options))
   \<and> (\<exists>r. map fst (outbox (onmessage eng_ok (request_of ''exec'' (ArgsObj row_options) JUndefined) opened_once))
           = map fst (outbox opened_once)
             @ [RowMsg (JStr ''row'') (Some 1) (JNum (Safe 10)), RowMsg (JStr ''row'') (Some 2) JNull,
                RowMsg (JStr ''row'') None JUndefined, Response r]
         \<and> rsp_type r = ''exec'')"
proof -
  have h1: "ev_type (request_of ''exec'' (ArgsObj row_options) JUndefined) = ''exec''"
    by (simp add: request_of_def)
  have h2: "ev_args (request_of ''exec'' (ArgsObj row_options) JUndefined) = ArgsObj row_options"
    by (simp add: request_of_def)
  have h3: "get_prop row_options ''callback'' = JStr ''row''"
    by (simp add: row_options_def get_prop_def)
  have h4: "get_prop row_options ''rowMode'' \<noteq> JStr ''stmt''"
    by (simp add: row_options_def get_prop_def)
  have h5: "getMsgDb (request_of ''exec'' (ArgsObj row_options) JUndefined) opened_once = Inr 0"
    by (simp add: opened_once_eval getMsgDb_def lookupMsgDb_def getDb_def affirmDbOpen_def
        pointer_of_def request_of_def)
  have h6: "two_rows = db_exec eng_ok (pointer_of opened_once 0) (install_callback (default_rowMode row_options))"
    by (simp add: eng_ok_def)
  show ?thesis
    using exec_streaming_messages [OF h1 h2 h3 h4 h5 h6] h3 h4 h5 h6
    by (simp add: two_rows_def end_of_rows_def numeral_2_eq_2)
qed

text \<open>
  C1 as stated fails where the engine throws: after one row, \<open>db.exec\<close> throws; the row
  message and the \<open>error\<close> response are posted, and no end-of-results message is.
\<close>

theorem exec_failure_posts_no_end_of_rows:
  "map fst (outbox (onmessage eng_exec_fails (request_of ''exec'' (ArgsObj row_options) JUndefined) opened_once))
   = map fst (outbox opened_once) @
     [RowMsg (JStr ''row'') (Some 1) (JNum (Safe 10)),
      Response \<lparr>rsp_type = ''error'', rsp_dbId = JStr ''db#1@7'', rsp_messageId = JNum (Safe 1),
        rsp_departureTime = JUndefined,
        rsp_result = ErrorResult ''exec'' ''no such table'' ''SQLite3Error''
          (request_of ''exec'' (ArgsObj [(''sql'', JStr ''select a from t''), (''callback'', JStr ''row''),
              (''rowMode'', JStr ''array'')]) JUndefined)\<rparr>]
   \<and> count_list (map fst (outbox (onmessage eng_exec_fails
          (request_of ''exec'' (ArgsObj row_options) JUndefined) opened_once))) (end_of_rows ''row'') = 0"
  by (simp add: opened_once_eval eval_defs row_options_def end_of_rows_def)

section \<open>The callback field of the echoed options\<close>

lemma ev_args_with_rc: "ev_args ev = ArgsObj opts \<Longrightarrow> ev_args (with_rc ev rc) = ArgsObj rc"
  by (simp add: with_rc_def)

text \<open>
  C10. For an \<open>exec\<close> request whose options object has a string \<open>callback\<close> \<open>t\<close>, the options
  object that the response echoes (the result on success, \<open>input.args\<close> of the error object on
  failure) has \<open>callback\<close> equal to \<open>t\<close> again, not the installed function: on the \<open>stmt\<close>
  throw, when no handle resolves, when the engine returns and when it throws.
\<close>

theorem exec_restores_callback:
  assumes "ev_type ev = ''exec''"
    and "ev_args ev = ArgsObj opts"
    and "get_prop opts ''callback'' = JStr t"
  shows "\<exists>r rc. responses (outbox (onmessage eng ev s)) = responses (outbox s) @ [r]
           \<and> echoed_options (rsp_result r) = Some rc
           \<and> get_prop rc ''callback'' = JStr t"
proof -
  obtain res ev1 s1 where d: "dispatch eng ev s = (res, ev1, s1)"
    by (cases "dispatch eng ev s") auto
  have out: "responses (outbox s1) = responses (outbox s)"
    using responses_dispatch [of eng ev s] by (simp add: d)
  have cb: "get_prop (default_rowMode opts) ''callback'' = JStr t"
    using assms(3) by (simp add: callback_default_rowMode)
  have ev1: "\<exists>rc. ev_args ev1 = ArgsObj rc \<and> get_prop rc ''callback'' = JStr t
                \<and> (\<forall>obj. res = Inr obj \<longrightarrow> obj = rc)"
  proof (cases "get_prop opts ''rowMode'' = JStr ''stmt''")
    case True
    then show ?thesis
      using assms d by (auto simp add: dispatch_def wMsgHandler_exec_def exec_rc_def)
  next
    case False
    show ?thesis
    proof (cases "getMsgDb ev s")
      case (Inl err)
      then show ?thesis
        using assms d False cb
        by (auto simp add: dispatch_def wMsgHandler_exec_def exec_rc_def ev_args_with_rc)
    next
      case (Inr db)
      obtain res' rc5 s2 where e: "exec_on eng db (default_rowMode opts) s = (res', rc5, s2)"
        by (cases "exec_on eng db (default_rowMode opts) s") auto
      have rc5: "get_prop rc5 ''callback'' = JStr t"
        using exec_on_streaming(2) [where eng=eng and s=s and db=db, OF cb refl] by (simp add: e)
      have r: "res' = Inr rc5 \<or> (\<exists>err. res' = Inl err)"
      proof (cases "ex_error (db_exec eng (pointer_of s db) (install_callback (default_rowMode opts)))")
        case None
        then show ?thesis
          using exec_on_streaming(3) [where eng=eng and s=s and db=db, OF cb refl]
          by (simp add: e)
      next
        case (Some err)
        then show ?thesis
          using exec_on_streaming(3) [where eng=eng and s=s and db=db, OF cb refl]
          by (simp add: e)
      qed
      have d': "dispatch eng ev s = (res', with_rc ev rc5, s2)"
        using assms False Inr by (simp add: dispatch_def wMsgHandler_exec_def exec_rc_def e)
      have "ev_args (with_rc ev rc5) = ArgsObj rc5"
        using assms(2) by (rule ev_args_with_rc)
      moreover have "res = res'" "ev1 = with_rc ev rc5"
        using d d' by simp_all
      ultimately show ?thesis
        using rc5 r by blast
    qed
  qed
  then obtain rc where rc: "ev_args ev1 = ArgsObj rc" "get_prop rc ''callback'' = JStr t"
      "\<forall>obj. res = Inr obj \<longrightarrow> obj = rc"
    by blast
  obtain dd x where o: "outbox (onmessage eng ev s) = outbox s1 @
           [(Response \<lparr>rsp_type = (case res of Inl err \<Rightarrow> ''error'' | Inr obj \<Rightarrow> ev_type ev),
               rsp_dbId = dd, rsp_messageId = ev_messageId ev1,
               rsp_departureTime = ev_departureTime ev1,
               rsp_result = (case res of
                      Inl err \<Rightarrow> ErrorResult (ev_type ev) (err_message err) (err_name err) ev1
                    | Inr obj \<Rightarrow> Result obj)\<rparr>, x)]"
    using onmessage_outbox [OF d] by blast
  show ?thesis
    using rc by (cases res) (simp_all add: o responses_append out echoed_options_def)
qed

theorem exec_restores_callback_witness:
  "get_prop row_options ''callback'' = JStr ''row''
   \<and> (\<exists>r rc. responses (outbox (onmessage eng_exec_fails
                 (request_of ''exec'' (ArgsObj row_options) JUndefined) opened_once))
              = responses (outbox opened_once) @ [r]
           \<and> echoed_options (rsp_result r) = Some rc
           \<and> get_prop rc ''callback'' = JStr ''row'')"
  using exec_restores_callback [of "request_of ''exec'' (ArgsObj row_options) JUndefined"
      row_options "''row''" eng_exec_fails opened_once]
  by (simp add: request_of_def row_options_def get_prop_def)

section \<open>Identifiers\<close>

text \<open>
  The decimal rendering is injective and has no \<open>@\<close>, so the sequence number can be read
  back from an identifier whatever the pointer part is.
\<close>

lemma digit_char_not_at: "d < 10 \<Longrightarrow> digit_char d \<noteq> CHR ''@''"
proof -
  assume "d < 10"
  then have "d \<in> {0, 1, 2, 3, 4, 5, 6, 7, 8, 9}" by auto
  then show ?thesis by (auto simp add: digit_char_def)
qed

lemma dec_no_at: "CHR ''@'' \<notin> set (dec n)"
proof (induction n rule: dec.induct)
  case (1 n)
  show ?case
  proof (cases "n < 10")
    case True
    then show ?thesis using digit_char_not_at [of n] by (subst dec.simps) auto
  next
    case False
    have "n mod 10 < 10" by simp
    then have "digit_char (n mod 10) \<noteq> CHR ''@''" by (rule digit_char_not_at)
    then show ?thesis using 1 False by (subst dec.simps) auto
  qed
qed

lemma dec_nonempty: "dec n \<noteq> []"
  by (subst dec.simps) simp

lemma digit_char_inj: "d < 10 \<Longrightarrow> e < 10 \<Longrightarrow> digit_char d = digit_char e \<Longrightarrow> d = e"
proof -
  assume a: "d < 10" "e < 10" "digit_char d = digit_char e"
  have "distinct ''0123456789''" by simp
  moreover have "d < length ''0123456789''" "e < length ''0123456789''" using a by simp_all
  ultimately show ?thesis
    using a(3) unfolding digit_char_def by (simp only: nth_eq_iff_index_eq)
qed

lemma dec_inj: "dec n = dec m \<Longrightarrow> n = m"
proof (induction n arbitrary: m rule: dec.induct)
  case (1 n)
  show ?case
  proof (cases "n < 10")
    case True
    note n = this
    show ?thesis
    proof (cases "m < 10")
      case True
      then show ?thesis
        using "1.prems" n digit_char_inj [of n m] by (simp add: dec.simps [of n] dec.simps [of m])
    next
      case False
      then have "length (dec m) \<ge> 2"
        using dec_nonempty [of "m div 10"]
        by (subst dec.simps) (cases "dec (m div 10)", simp_all)
      moreover have "length (dec n) = 1" using n by (subst dec.simps) simp
      ultimately show ?thesis using "1.prems" by simp
    qed
  next
    case False
    note n = this
    show ?thesis
    proof (cases "m < 10")
      case True
      have "length (dec n) \<ge> 2"
        using n dec_nonempty [of "n div 10"]
        by (subst dec.simps) (cases "dec (n div 10)", simp_all)
      moreover have "length (dec m) = 1" using True by (subst dec.simps) simp
      ultimately show ?thesis using "1.prems" by simp
    next
      case False
      have "dec (n div 10) @ [digit_char (n mod 10)] = dec (m div 10) @ [digit_char (m mod 10)]"
        using "1.prems" n False by (simp add: dec.simps [of n] dec.simps [of m])
      then have e: "dec (n div 10) = dec (m div 10)" "digit_char (n mod 10) = digit_char (m mod 10)"
        by simp_all
      have "n div 10 = m div 10" using "1.IH" [OF n e(1)] .
      moreover have "n mod 10 = m mod 10"
        using digit_char_inj [OF _ _ e(2)] by simp
      ultimately show ?thesis by (metis div_mult_mod_eq)
    qed
  qed
qed

lemma split_at_first:
  "a \<notin> set xs \<Longrightarrow> a \<notin> set ys \<Longrightarrow> xs @ a # us = ys @ a # vs \<Longrightarrow> xs = ys"
proof (induction xs arbitrary: ys)
  case Nil
  then show ?case by (cases ys) auto
next
  case (Cons x xs)
  then show ?case by (cases ys) auto
qed

lemma minted_seq_unique:
  assumes "''db#'' @ dec k @ ''@'' @ p = ''db#'' @ dec k' @ ''@'' @ p'"
  shows "k = k'"
proof -
  have "dec k @ CHR ''@'' # p = dec k' @ CHR ''@'' # p'" using assms by simp
  then have "dec k = dec k'"
    using dec_no_at [of k] dec_no_at [of k'] by (rule split_at_first [rotated 2])
  then show ?thesis by (rule dec_inj)
qed

lemma not_minted_next: "\<not> minted n (''db#'' @ dec (Suc n) @ ''@'' @ p)"
proof
  assume "minted n (''db#'' @ dec (Suc n) @ ''@'' @ p)"
  then obtain k q where k: "0 < k" "k \<le> n" "''db#'' @ dec (Suc n) @ ''@'' @ p = ''db#'' @ dec k @ ''@'' @ q"
    unfolding minted_def by blast
  from minted_seq_unique [OF k(3)] k(2) show False by simp
qed

lemma minted_mono:
  assumes "minted n ident" and "n \<le> m"
  shows "minted m ident"
proof -
  obtain k p where k: "0 < k" "k \<le> n" "ident = ''db#'' @ dec k @ ''@'' @ p"
    using assms(1) unfolding minted_def by blast
  have "k \<le> m" using k(2) assms(2) by simp
  then show ?thesis unfolding minted_def using k(1,3) by blast
qed

lemma minted_nonempty: "minted n ident \<Longrightarrow> ident \<noteq> []"
  unfolding minted_def by auto


section \<open>The registry between messages\<close>

lemma registry_post: "registry (post m u s) = registry s"
  by (simp add: post_def registry_def)

lemma registry_exec_rows: "registry (exec_rows b cb n rows s) = registry s"
proof (induction rows arbitrary: n s b cb)
  case Nil
  then show ?case by simp
next
  case (Cons a rows)
  obtain bufs row where a: "a = (bufs, row)" by (cases a)
  have x: "registry (s\<lparr>xfer := xfer s @ bufs\<rparr>) = registry s" for s
    by (simp add: registry_def)
  show ?case
    by (cases cb) (simp_all add: a Cons Let_def row_callback_def registry_post x)
qed

lemma registry_exec_on: "registry (snd (snd (exec_on eng db rc s))) = registry s"
  by (simp add: exec_on_def Let_def registry_exec_rows registry_post split: option.splits)

lemma registry_exec: "registry (snd (snd (wMsgHandler_exec eng ev s))) = registry s"
proof -
  have "registry s2 = registry s"
    if "exec_on eng db rc s = (res, rc5, s2)" for db rc res rc5 s2
    using registry_exec_on [of eng db rc s] that by simp
  then show ?thesis
    by (simp add: wMsgHandler_exec_def Let_def split: prod.splits sum.splits)
qed

lemma registry_ok_cong: "registry s' = registry s \<Longrightarrow> registry_ok s' = registry_ok s"
  by (simp add: registry_def registry_ok_def)

lemma registry_ok_wInit: "registry_ok wInit"
  by (simp add: registry_ok_def wInit_def)

lemma getDbId_known:
  assumes "registry_ok s" and "idMap s db = Some ident"
  shows "getDbId db s = (ident, s)"
proof -
  have "minted (idSeq s) ident" using assms by (simp add: registry_ok_def)
  then have "ident \<noteq> []" by (rule minted_nonempty)
  then show ?thesis using assms(2) by (simp add: getDbId_def)
qed

lemma getDefaultDbId_ok:
  assumes "registry_ok s"
  shows "snd (getDefaultDbId s) = s"
    and "defaultDb s = None \<Longrightarrow> fst (getDefaultDbId s) = JUndefined"
    and "defaultDb s = Some db \<Longrightarrow> \<exists>ident. idMap s db = Some ident \<and> dbs s ident = Some db
            \<and> fst (getDefaultDbId s) = JStr ident"
proof -
  have d: "\<exists>ident. idMap s db = Some ident \<and> dbs s ident = Some db" if "defaultDb s = Some db" for db
    using assms that unfolding registry_ok_def by blast
  show "snd (getDefaultDbId s) = s"
  proof (cases "defaultDb s")
    case None
    then show ?thesis by (simp add: getDefaultDbId_def)
  next
    case (Some db)
    then obtain ident where "idMap s db = Some ident" using d by blast
    then show ?thesis using Some getDbId_known [OF assms] by (simp add: getDefaultDbId_def)
  qed
  show "defaultDb s = None \<Longrightarrow> fst (getDefaultDbId s) = JUndefined"
    by (simp add: getDefaultDbId_def)
  show "\<exists>ident. idMap s db = Some ident \<and> dbs s ident = Some db
            \<and> fst (getDefaultDbId s) = JStr ident" if h: "defaultDb s = Some db"
  proof -
    obtain ident where i: "idMap s db = Some ident" "dbs s ident = Some db" using d h by blast
    then show ?thesis using h getDbId_known [OF assms i(1)] by (simp add: getDefaultDbId_def)
  qed
qed

lemma lookupMsgDb_registered:
  assumes "registry_ok s" and "lookupMsgDb ev s = Some db"
  shows "\<exists>ident. idMap s db = Some ident \<and> dbs s ident = Some db"
proof (cases "dbs s (js_to_string (ev_dbId ev))")
  case None
  then have "defaultDb s = Some db" using assms(2) by (simp add: lookupMsgDb_def getDb_def)
  then show ?thesis using assms(1) unfolding registry_ok_def by blast
next
  case (Some d)
  then have "d = db" using assms(2) by (simp add: lookupMsgDb_def getDb_def)
  then show ?thesis using Some assms(1) unfolding registry_ok_def by blast
qed


lemma fresh_ref: "registry_ok s \<Longrightarrow> idMap s (nextRef s) = None"
  unfolding registry_ok_def by (cases "idMap s (nextRef s)") auto

lemma next_id_not_minted: "\<not> minted (idSeq s) (next_id s p)"
  unfolding next_id_def by (rule not_minted_next)

lemma next_id_minted: "minted (Suc (idSeq s)) (next_id s p)"
  unfolding next_id_def minted_def by blast

lemma wState_open_registry:
  assumes "registry_ok s" and "new_DB eng f = Inr (p, fn)"
  shows "\<exists>s1. wState_open eng f s = (Inr (nextRef s), s1)
     \<and> registry s1 = registry_opened s p fn \<and> outbox s1 = outbox s"
  using assms(2) fresh_ref [OF assms(1)]
  by (simp add: wState_open_def getDbId_def mintDbId_def pointer_of_def pointer_string_def
      next_id_def registry_def registry_opened_def Let_def split: option.splits)

lemma registry_ok_opened:
  assumes ok: "registry_ok s"
    and r: "registry s1 = registry_opened s p fn"
  shows "registry_ok s1"
proof -
  have f: "defaultDb s1 = (case defaultDb s of None \<Rightarrow> Some (nextRef s) | Some d \<Rightarrow> Some d)"
      "idSeq s1 = Suc (idSeq s)" "idMap s1 = (idMap s)(nextRef s \<mapsto> next_id s p)"
      "dbs s1 = (dbs s)(next_id s p \<mapsto> nextRef s)" "nextRef s1 = Suc (nextRef s)"
    using r by (simp_all add: registry_def registry_opened_def)
  have old1: "db < nextRef s \<and> minted (idSeq s) ident" if "idMap s db = Some ident" for db ident
    using ok that unfolding registry_ok_def by blast
  have old2: "idMap s db = Some ident" if "dbs s ident = Some db" for db ident
    using ok that unfolding registry_ok_def by blast
  have old3: "\<exists>ident. dbs s ident = Some db" if "defaultDb s = Some db" for db
    using ok that unfolding registry_ok_def by blast
  have a: "db < nextRef s1 \<and> minted (idSeq s1) ident" if h: "idMap s1 db = Some ident" for db ident
  proof (cases "db = nextRef s")
    case True
    then have "ident = next_id s p" using h f(3) by simp
    then show ?thesis using True f(2,5) next_id_minted by simp
  next
    case False
    then have "idMap s db = Some ident" using h f(3) by simp
    from old1 [OF this] show ?thesis using f(2,5) minted_mono [of "idSeq s" ident "Suc (idSeq s)"] by simp
  qed
  have b: "idMap s1 db = Some ident" if h: "dbs s1 ident = Some db" for db ident
  proof (cases "ident = next_id s p")
    case True
    then show ?thesis using h f(3,4) by simp
  next
    case False
    then have d: "dbs s ident = Some db" using h f(4) by simp
    then have "idMap s db = Some ident" by (rule old2)
    moreover from old1 [OF this] have "db \<noteq> nextRef s" by simp
    ultimately show ?thesis using f(3) by simp
  qed
  have c: "\<exists>ident. dbs s1 ident = Some db" if h: "defaultDb s1 = Some db" for db
  proof (cases "defaultDb s")
    case None
    then have "db = nextRef s" using h f(1) by simp
    then show ?thesis using f(4) by auto
  next
    case (Some d)
    then have "d = db" using h f(1) by simp
    then obtain ident where i: "dbs s ident = Some db" using old3 Some by blast
    have "minted (idSeq s) ident" using old1 [OF old2 [OF i]] by simp
    then have "ident \<noteq> next_id s p" using next_id_not_minted by blast
    then show ?thesis using i f(4) by auto
  qed
  show ?thesis unfolding registry_ok_def using a b c by blast
qed

lemma registry_ok_closed:
  assumes ok: "registry_ok s"
    and r: "registry s1 = registry_closed s db ident"
    and i: "dbs s ident = Some db"
  shows "registry_ok s1"
proof -
  have f: "defaultDb s1 = (if defaultDb s = Some db then None else defaultDb s)"
      "idSeq s1 = idSeq s" "idMap s1 = idMap s" "dbs s1 = (dbs s)(ident := None)"
      "nextRef s1 = nextRef s"
    using r by (simp_all add: registry_def registry_closed_def)
  have old1: "db < nextRef s \<and> minted (idSeq s) ident" if "idMap s db = Some ident" for db ident
    using ok that unfolding registry_ok_def by blast
  have old2: "idMap s db = Some ident" if "dbs s ident = Some db" for db ident
    using ok that unfolding registry_ok_def by blast
  have old3: "\<exists>ident. dbs s ident = Some db" if "defaultDb s = Some db" for db
    using ok that unfolding registry_ok_def by blast
  have a: "d < nextRef s1 \<and> minted (idSeq s1) j" if "idMap s1 d = Some j" for d j
    using old1 that f by simp
  have b: "idMap s1 d = Some j" if h: "dbs s1 j = Some d" for d j
  proof -
    have "dbs s j = Some d" using h f(4) by (cases "j = ident") simp_all
    then show ?thesis using old2 f(3) by simp
  qed
  have c: "\<exists>j. dbs s1 j = Some d" if h: "defaultDb s1 = Some d" for d
  proof -
    have d: "defaultDb s = Some d" "d \<noteq> db" using h f(1) by (auto split: if_splits)
    then obtain j where j: "dbs s j = Some d" using old3 by blast
    then have "j \<noteq> ident" using i d(2) by auto
    then show ?thesis using j f(4) by auto
  qed
  show ?thesis unfolding registry_ok_def using a b c by blast
qed

lemma wMsgHandler_open_failed:
  assumes "truthy (get_prop (open_args (ev_args ev)) ''simulateError'')
           \<or> new_DB eng (open_filename (persistent_dir eng) (open_args (ev_args ev))) = Inl err"
  shows "\<exists>e. wMsgHandler_open eng ev s = (Inl e, ev, s)"
  using assms by (auto simp add: wMsgHandler_open_def wState_open_def Let_def)

lemma wMsgHandler_open_done:
  assumes "registry_ok s"
    and "\<not> truthy (get_prop (open_args (ev_args ev)) ''simulateError'')"
    and "new_DB eng (open_filename (persistent_dir eng) (open_args (ev_args ev))) = Inr (p, fn)"
  shows "\<exists>s1 b. wMsgHandler_open eng ev s =
            (Inr [(''filename'', JStr fn), (''persistent'', JBool b), (''dbId'', JStr (next_id s p))],
             ev, s1)
          \<and> registry s1 = registry_opened s p fn \<and> outbox s1 = outbox s"
proof -
  obtain s1 where o: "wState_open eng (open_filename (persistent_dir eng) (open_args (ev_args ev))) s
        = (Inr (nextRef s), s1)"
      and r: "registry s1 = registry_opened s p fn" and out: "outbox s1 = outbox s"
    using wState_open_registry [OF assms(1,3)] by blast
  have ok1: "registry_ok s1" using assms(1) r by (rule registry_ok_opened)
  have "idMap s1 (nextRef s) = Some (next_id s p)"
    using r by (simp add: registry_def registry_opened_def)
  then have g: "getDbId (nextRef s) s1 = (next_id s p, s1)"
    using ok1 by (rule getDbId_known [rotated])
  have fn: "filename_of s1 (nextRef s) = fn"
    using r by (simp add: registry_def registry_opened_def filename_of_def)
  show ?thesis
    using assms(2) r out by (simp add: wMsgHandler_open_def Let_def o g fn)
qed

lemma wMsgHandler_close_none:
  assumes "lookupMsgDb ev s = None"
  shows "wMsgHandler_close eng ev s = (Inr [(''filename'', JUndefined), (''dbId'', JUndefined)], ev, s)"
  using assms by (simp add: wMsgHandler_close_def)

lemma wMsgHandler_close_some:
  assumes "registry_ok s" and "lookupMsgDb ev s = Some db"
  shows "\<exists>ident s1. idMap s db = Some ident \<and> dbs s ident = Some db
          \<and> wMsgHandler_close eng ev s =
              (Inr [(''filename'', JStr (filename_of s db)), (''dbId'', JStr ident)], ev, s1)
          \<and> registry s1 = registry_closed s db ident \<and> outbox s1 = outbox s"
proof -
  obtain ident where i: "idMap s db = Some ident" "dbs s ident = Some db"
    using lookupMsgDb_registered [OF assms] by blast
  have g: "getDbId db s = (ident, s)" using assms(1) i(1) by (rule getDbId_known)
  have r: "registry (wState_close eng (Some db) u s) = registry_closed s db ident" for u
    by (simp add: wState_close_def g Let_def registry_def registry_closed_def db_close_def
        split: option.splits)
  have out: "outbox (wState_close eng (Some db) u s) = outbox s" for u
    by (rule outbox_wState_close)
  show ?thesis
    using i r out by (simp add: wMsgHandler_close_def assms(2) g Let_def)
qed

lemma dispatch_cases:
  assumes ok: "registry_ok s"
  obtains
    (opened) p fn b s1 where "ev_type ev = ''open''"
      "dispatch eng ev s = (Inr [(''filename'', JStr fn), (''persistent'', JBool b),
          (''dbId'', JStr (next_id s p))], ev, s1)"
      "registry s1 = registry_opened s p fn" "outbox s1 = outbox s"
  | (closed) db ident s1 where "ev_type ev = ''close''" "lookupMsgDb ev s = Some db"
      "idMap s db = Some ident" "dbs s ident = Some db"
      "dispatch eng ev s = (Inr [(''filename'', JStr (filename_of s db)), (''dbId'', JStr ident)], ev, s1)"
      "registry s1 = registry_closed s db ident" "outbox s1 = outbox s"
  | (noclose) "ev_type ev = ''close''" "lookupMsgDb ev s = None"
      "dispatch eng ev s = (Inr [(''filename'', JUndefined), (''dbId'', JUndefined)], ev, s)"
  | (failed) e ev1 s1 where "dispatch eng ev s = (Inl e, ev1, s1)" "registry s1 = registry s"
      "responses (outbox s1) = responses (outbox s)"
  | (other) obj ev1 s1 where "ev_type ev \<noteq> ''open''" "ev_type ev \<noteq> ''close''"
      "dispatch eng ev s = (Inr obj, ev1, s1)" "registry s1 = registry s"
      "responses (outbox s1) = responses (outbox s)"
proof -
  consider "ev_type ev = ''open''" | "ev_type ev = ''close''" | "ev_type ev = ''exec''"
    | "ev_type ev \<noteq> ''open''" "ev_type ev \<noteq> ''close''" "ev_type ev \<noteq> ''exec''"
    by blast
  then show thesis
  proof cases
    case 1
    then have d: "dispatch eng ev s = wMsgHandler_open eng ev s" by (simp add: dispatch_def)
    show ?thesis
    proof (cases "truthy (get_prop (open_args (ev_args ev)) ''simulateError'')")
      case True
      then obtain e where "wMsgHandler_open eng ev s = (Inl e, ev, s)"
        using wMsgHandler_open_failed [of ev eng _ s] by blast
      then show ?thesis using failed [of e ev s] d by simp
    next
      case False
      show ?thesis
      proof (cases "new_DB eng (open_filename (persistent_dir eng) (open_args (ev_args ev)))")
        case (Inl err)
        then obtain e where "wMsgHandler_open eng ev s = (Inl e, ev, s)"
          using wMsgHandler_open_failed [of ev eng err s] by blast
        then show ?thesis using failed [of e ev s] d by simp
      next
        case (Inr pf)
        obtain p fn where pf: "pf = (p, fn)" by (cases pf)
        obtain s1 b where "wMsgHandler_open eng ev s =
            (Inr [(''filename'', JStr fn), (''persistent'', JBool b), (''dbId'', JStr (next_id s p))],
             ev, s1)" "registry s1 = registry_opened s p fn" "outbox s1 = outbox s"
          using wMsgHandler_open_done [OF ok False Inr [unfolded pf]] by blast
        then show ?thesis using opened [of fn b p s1] 1 d by simp
      qed
    qed
  next
    case 2
    then have d: "dispatch eng ev s = wMsgHandler_close eng ev s" by (simp add: dispatch_def)
    show ?thesis
    proof (cases "lookupMsgDb ev s")
      case None
      then show ?thesis using noclose 2 d wMsgHandler_close_none [of ev s eng] by simp
    next
      case (Some db)
      obtain ident s1 where "idMap s db = Some ident" "dbs s ident = Some db"
          "wMsgHandler_close eng ev s =
              (Inr [(''filename'', JStr (filename_of s db)), (''dbId'', JStr ident)], ev, s1)"
          "registry s1 = registry_closed s db ident" "outbox s1 = outbox s"
        using wMsgHandler_close_some [OF ok Some, of eng] by blast
      then show ?thesis using closed [of db ident s1] 2 Some d by simp
    qed
  next
    case 3
    then have d: "dispatch eng ev s = wMsgHandler_exec eng ev s" by (simp add: dispatch_def)
    obtain res ev1 s1 where e: "wMsgHandler_exec eng ev s = (res, ev1, s1)"
      by (cases "wMsgHandler_exec eng ev s") auto
    have r: "registry s1 = registry s" using registry_exec [of eng ev s] by (simp add: e)
    have o: "responses (outbox s1) = responses (outbox s)"
      using responses_exec [of eng ev s] by (simp add: e)
    show ?thesis
    proof (cases res)
      case (Inl err)
      then show ?thesis using failed [of err ev1 s1] d e r o by simp
    next
      case (Inr obj)
      then show ?thesis using other [of obj ev1 s1] 3 d e r o by simp
    qed
  next
    case 4
    show ?thesis
    proof (cases "ev_type ev = ''config-get''")
      case True
      then obtain obj where "dispatch eng ev s = (Inr obj, ev, s)"
        by (simp add: dispatch_def wMsgHandler_config_get_def)
      then show ?thesis using other [of obj ev s] 4 by simp
    next
      case False
      then have "\<exists>e. dispatch eng ev s = (Inl e, ev, s)"
        using 4 by (simp add: dispatch_def wMsgHandler_export_def wMsgHandler_toss_def)
      then obtain e where "dispatch eng ev s = (Inl e, ev, s)" by blast
      then show ?thesis using failed [of e ev s] by simp
    qed
  qed
qed

lemma dispatch_registry_ok:
  assumes "registry_ok s"
  shows "registry_ok (snd (snd (dispatch eng ev s)))"
  using assms
proof (cases rule: dispatch_cases [where ev=ev and eng=eng])
  case (opened p fn b s1)
  then show ?thesis using registry_ok_opened [OF assms] by simp
next
  case (closed db ident s1)
  then show ?thesis using registry_ok_closed [OF assms] by simp
next
  case noclose
  then show ?thesis using assms by simp
next
  case (failed e ev1 s1)
  then show ?thesis using assms registry_ok_cong [of s1 s] by simp
next
  case (other obj ev1 s1)
  then show ?thesis using assms registry_ok_cong [of s1 s] by simp
qed

lemma onmessage_posts:
  assumes "registry_ok s1" and "dispatch eng ev s = (res, ev1, s1)"
  shows "onmessage eng ev s =
     post (Response \<lparr>rsp_type = (case res of Inl err \<Rightarrow> ''error'' | Inr obj \<Rightarrow> ev_type ev),
        rsp_dbId = (if truthy (ev_dbId ev) then ev_dbId ev
                    else if truthy (payload_dbId (case res of
                      Inl err \<Rightarrow> ErrorResult (ev_type ev) (err_message err) (err_name err) ev1
                    | Inr obj \<Rightarrow> Result obj))
                    then payload_dbId (case res of
                      Inl err \<Rightarrow> ErrorResult (ev_type ev) (err_message err) (err_name err) ev1
                    | Inr obj \<Rightarrow> Result obj)
                    else fst (getDefaultDbId s1)),
        rsp_messageId = ev_messageId ev1, rsp_departureTime = ev_departureTime ev1,
        rsp_result = (case res of
                      Inl err \<Rightarrow> ErrorResult (ev_type ev) (err_message err) (err_name err) ev1
                    | Inr obj \<Rightarrow> Result obj)\<rparr>) True s1"
proof -
  obtain v where g: "getDefaultDbId s1 = (v, s1)"
    using getDefaultDbId_ok(1) [OF assms(1)] by (cases "getDefaultDbId s1") auto
  show ?thesis
    by (simp add: onmessage_def assms(2) g Let_def)
qed

section \<open>Runs of the worker\<close>

lemma run_snoc: "run (steps @ [(eng, ev)]) s = onmessage eng ev (run steps s)"
  by (induction steps arbitrary: s) auto

lemma registry_ok_onmessage:
  assumes "registry_ok s"
  shows "registry_ok (onmessage eng ev s)"
proof -
  obtain res ev1 s1 where d: "dispatch eng ev s = (res, ev1, s1)"
    by (cases "dispatch eng ev s") auto
  have ok1: "registry_ok s1" using dispatch_registry_ok [OF assms, of eng ev] by (simp add: d)
  have "registry (onmessage eng ev s) = registry s1"
    by (simp add: onmessage_posts [OF ok1 d] registry_post)
  then show ?thesis using ok1 registry_ok_cong by blast
qed

lemma registry_ok_run: "registry_ok (run steps wInit)"
proof (induction steps rule: rev_induct)
  case Nil
  then show ?case by (simp add: registry_ok_wInit)
next
  case (snoc x steps)
  obtain eng ev where x: "x = (eng, ev)" by (cases x)
  show ?case using snoc by (simp add: x run_snoc registry_ok_onmessage)
qed

text \<open>What one message does, for a state that satisfies the invariant.\<close>

lemma onmessage_summary:
  assumes ok: "registry_ok s" and d: "dispatch eng ev s = (res, ev1, s1)"
  shows "registry_ok s1"
    and "registry (onmessage eng ev s) = registry s1"
    and "\<exists>r. responses (outbox (onmessage eng ev s)) = responses (outbox s) @ [r]
          \<and> rsp_type r = (case res of Inl err \<Rightarrow> ''error'' | Inr obj \<Rightarrow> ev_type ev)
          \<and> payload_dbId (rsp_result r) = (case res of Inl err \<Rightarrow> JUndefined | Inr obj \<Rightarrow> get_prop obj ''dbId'')
          \<and> rsp_dbId r = (if truthy (ev_dbId ev) then ev_dbId ev
                          else if truthy (payload_dbId (rsp_result r)) then payload_dbId (rsp_result r)
                          else fst (getDefaultDbId s1))"
proof -
  show ok1: "registry_ok s1" using dispatch_registry_ok [OF ok, of eng ev] by (simp add: d)
  show "registry (onmessage eng ev s) = registry s1"
    by (simp add: onmessage_posts [OF ok1 d] registry_post)
  have o: "responses (outbox s1) = responses (outbox s)"
    using responses_dispatch [of eng ev s] by (simp add: d)
  show "\<exists>r. responses (outbox (onmessage eng ev s)) = responses (outbox s) @ [r]
          \<and> rsp_type r = (case res of Inl err \<Rightarrow> ''error'' | Inr obj \<Rightarrow> ev_type ev)
          \<and> payload_dbId (rsp_result r) = (case res of Inl err \<Rightarrow> JUndefined | Inr obj \<Rightarrow> get_prop obj ''dbId'')
          \<and> rsp_dbId r = (if truthy (ev_dbId ev) then ev_dbId ev
                          else if truthy (payload_dbId (rsp_result r)) then payload_dbId (rsp_result r)
                          else fst (getDefaultDbId s1))"
    by (cases res) (simp_all add: onmessage_posts [OF ok1 d] responses_post_response o payload_dbId_def)
qed

lemma default_id_char:
  assumes "registry_ok s"
  shows "fst (getDefaultDbId s) =
     (case defaultDb s of None \<Rightarrow> JUndefined
      | Some d \<Rightarrow> (case idMap s d of None \<Rightarrow> JUndefined | Some i \<Rightarrow> JStr i))"
proof (cases "defaultDb s")
  case None
  then show ?thesis using getDefaultDbId_ok(2) [OF assms] by simp
next
  case (Some d)
  then show ?thesis using getDefaultDbId_ok(3) [OF assms Some] by auto
qed

lemma default_id_registry:
  assumes "registry_ok s" and "registry s' = registry s"
  shows "fst (getDefaultDbId s') = fst (getDefaultDbId s)"
proof -
  have ok': "registry_ok s'" using assms registry_ok_cong by blast
  have "defaultDb s' = defaultDb s" "idMap s' = idMap s"
    using assms(2) by (simp_all add: registry_def)
  then show ?thesis
    by (simp add: default_id_char [OF ok'] default_id_char [OF assms(1)] split: option.splits)
qed

lemma opened_ids_snoc:
  "opened_ids (rs @ [r]) =
     opened_ids rs @ (if rsp_type r = ''open'' then [payload_dbId (rsp_result r)] else [])"
  by (induction rs) simp_all


text \<open>
  Every identifier already returned by an \<open>open\<close> was minted, none was returned twice, and
  every identifier in \<open>idMap\<close> was returned by an \<open>open\<close>.
\<close>

lemma opened_ids_onmessage:
  assumes ok: "registry_ok s"
    and m: "\<forall>v \<in> set (opened_ids (responses (outbox s))). \<exists>i. v = JStr i \<and> minted (idSeq s) i"
    and dist: "distinct (opened_ids (responses (outbox s)))"
    and cov: "\<forall>db i. idMap s db = Some i \<longrightarrow> JStr i \<in> set (opened_ids (responses (outbox s)))"
  shows "(\<forall>v \<in> set (opened_ids (responses (outbox (onmessage eng ev s)))).
            \<exists>i. v = JStr i \<and> minted (idSeq (onmessage eng ev s)) i)
         \<and> distinct (opened_ids (responses (outbox (onmessage eng ev s))))
         \<and> (\<forall>db i. idMap (onmessage eng ev s) db = Some i
               \<longrightarrow> JStr i \<in> set (opened_ids (responses (outbox (onmessage eng ev s)))))"
  using ok
proof (cases rule: dispatch_cases [where ev=ev and eng=eng])
  case (opened p fn b s1)
  obtain r where r: "responses (outbox (onmessage eng ev s)) = responses (outbox s) @ [r]"
      "rsp_type r = ''open''" "payload_dbId (rsp_result r) = JStr (next_id s p)"
    using onmessage_summary(3) [OF ok opened(2)] opened(1) by (auto simp add: get_prop_def)
  have "registry (onmessage eng ev s) = registry_opened s p fn"
    using onmessage_summary(2) [OF ok opened(2)] opened(3) by simp
  then have q: "idSeq (onmessage eng ev s) = Suc (idSeq s)"
      "idMap (onmessage eng ev s) = (idMap s)(nextRef s \<mapsto> next_id s p)"
    by (simp_all add: registry_def registry_opened_def)
  have new: "JStr (next_id s p) \<notin> set (opened_ids (responses (outbox s)))"
    using m next_id_not_minted by auto
  have old: "\<exists>i. v = JStr i \<and> minted (Suc (idSeq s)) i"
    if "v \<in> set (opened_ids (responses (outbox s)))" for v
    using m that minted_mono [of "idSeq s" _ "Suc (idSeq s)"] by fastforce
  show ?thesis
    using new old dist cov next_id_minted [of s p] by (auto simp add: r opened_ids_snoc q)
next
  case (closed db ident s1)
  obtain r where r: "responses (outbox (onmessage eng ev s)) = responses (outbox s) @ [r]"
      "rsp_type r = ''close''"
    using onmessage_summary(3) [OF ok closed(5)] closed(1) by auto
  have "registry (onmessage eng ev s) = registry_closed s db ident"
    using onmessage_summary(2) [OF ok closed(5)] closed(6) by simp
  then have q: "idSeq (onmessage eng ev s) = idSeq s" "idMap (onmessage eng ev s) = idMap s"
    by (simp_all add: registry_def registry_closed_def)
  show ?thesis using m dist cov by (simp add: r opened_ids_snoc q)
next
  case noclose
  obtain r where r: "responses (outbox (onmessage eng ev s)) = responses (outbox s) @ [r]"
      "rsp_type r = ''close''"
    using onmessage_summary(3) [OF ok noclose(3)] noclose(1) by auto
  have q: "idSeq (onmessage eng ev s) = idSeq s" "idMap (onmessage eng ev s) = idMap s"
    using onmessage_summary(2) [OF ok noclose(3)] by (simp_all add: registry_def)
  show ?thesis using m dist cov by (simp add: r opened_ids_snoc q)
next
  case (failed e ev1 s1)
  obtain r where r: "responses (outbox (onmessage eng ev s)) = responses (outbox s) @ [r]"
      "rsp_type r = ''error''"
    using onmessage_summary(3) [OF ok failed(1)] by auto
  have q: "idSeq (onmessage eng ev s) = idSeq s" "idMap (onmessage eng ev s) = idMap s"
    using onmessage_summary(2) [OF ok failed(1)] failed(2) by (simp_all add: registry_def)
  show ?thesis using m dist cov by (simp add: r opened_ids_snoc q)
next
  case (other obj ev1 s1)
  obtain r where r: "responses (outbox (onmessage eng ev s)) = responses (outbox s) @ [r]"
      "rsp_type r = ev_type ev"
    using onmessage_summary(3) [OF ok other(3)] by auto
  have q: "idSeq (onmessage eng ev s) = idSeq s" "idMap (onmessage eng ev s) = idMap s"
    using onmessage_summary(2) [OF ok other(3)] other(4) by (simp_all add: registry_def)
  show ?thesis using m dist cov other(1) by (simp add: r opened_ids_snoc q)
qed

lemma opened_ids_run:
  "(\<forall>v \<in> set (opened_ids (responses (outbox (run steps wInit)))).
       \<exists>i. v = JStr i \<and> minted (idSeq (run steps wInit)) i)
   \<and> distinct (opened_ids (responses (outbox (run steps wInit))))
   \<and> (\<forall>db i. idMap (run steps wInit) db = Some i
         \<longrightarrow> JStr i \<in> set (opened_ids (responses (outbox (run steps wInit)))))"
proof (induction steps rule: rev_induct)
  case Nil
  then show ?case by (simp add: wInit_def)
next
  case (snoc x steps)
  obtain eng ev where x: "x = (eng, ev)" by (cases x)
  show ?case
    using opened_ids_onmessage [OF registry_ok_run [of steps], of eng ev] snoc
    by (simp add: x run_snoc)
qed

text \<open>
  C5. Over any sequence of messages, with any engine behaviour at each (so also when
  \<open>new DB\<close> comes back at an address used before a \<open>close\<close>), the identifiers returned by the
  successful \<open>open\<close> commands are pairwise distinct, and every identifier minted so far (every
  entry of \<open>idMap\<close>) is among them: an \<open>open\<close> never returns an identifier minted before.
  The sequence number is a natural number here: the increment of a JavaScript number is
  exact below \<open>2^53\<close>.
\<close>

theorem open_identifiers_distinct:
  "distinct (opened_ids (responses (outbox (run steps wInit))))
   \<and> (\<forall>db i. idMap (run steps wInit) db = Some i
         \<longrightarrow> JStr i \<in> set (opened_ids (responses (outbox (run steps wInit)))))"
  using opened_ids_run [of steps] by blast




text \<open>
  Where the request has no \<open>dbId\<close>, the response takes the \<open>dbId\<close> of the handler's result
  when that is truthy, else the identifier of the default handle at that moment, else
  \<open>undefined\<close>.
\<close>

lemma response_dbId_without_request_dbId:
  assumes "\<not> truthy (ev_dbId ev)"
  shows "\<exists>r. responses (outbox (onmessage eng ev (run steps wInit)))
          = responses (outbox (run steps wInit)) @ [r]
       \<and> rsp_dbId r =
           (if truthy (payload_dbId (rsp_result r)) then payload_dbId (rsp_result r)
            else fst (getDefaultDbId (onmessage eng ev (run steps wInit))))"
proof -
  obtain res ev1 s1 where d: "dispatch eng ev (run steps wInit) = (res, ev1, s1)"
    by (cases "dispatch eng ev (run steps wInit)") auto
  note ok = registry_ok_run [of steps]
  have "fst (getDefaultDbId (onmessage eng ev (run steps wInit))) = fst (getDefaultDbId s1)"
    using default_id_registry [OF onmessage_summary(1) [OF ok d] onmessage_summary(2) [OF ok d]] .
  then show ?thesis
    using onmessage_summary(3) [OF ok d] assms by auto
qed

text \<open>
  C8. When \<open>new DB\<close> throws for the file name that \<open>open\<close> passes to it, the response is an
  \<open>error\<close> response and the registry is as it was: default handle, sequence number, both
  maps and the objects.
\<close>

theorem failed_open_keeps_registry:
  assumes "ev_type ev = ''open''"
    and "new_DB eng (open_filename (persistent_dir eng) (open_args (ev_args ev))) = Inl err"
  shows "registry (onmessage eng ev (run steps wInit)) = registry (run steps wInit)
         \<and> (\<exists>r. responses (outbox (onmessage eng ev (run steps wInit)))
                  = responses (outbox (run steps wInit)) @ [r]
                \<and> rsp_type r = ''error'')"
proof -
  note ok = registry_ok_run [of steps]
  obtain e where h: "wMsgHandler_open eng ev (run steps wInit) = (Inl e, ev, run steps wInit)"
    using wMsgHandler_open_failed [of ev eng err "run steps wInit"] assms(2) by blast
  have d: "dispatch eng ev (run steps wInit) = (Inl e, ev, run steps wInit)"
    using assms(1) h by (simp add: dispatch_def)
  show ?thesis
    using onmessage_summary(2,3) [OF ok d] by auto
qed

section \<open>Concrete runs\<close>

lemma opened_twice_eval:
  "opened_twice = \<lparr>defaultDb = Some 0, idSeq = 2,
     idMap = [0 \<mapsto> ''db#1@7'', 1 \<mapsto> ''db#2@7''], xfer = [],
     dbs = [''db#1@7'' \<mapsto> 0, ''db#2@7'' \<mapsto> 1],
     store = [0 \<mapsto> \<lparr>db_pointer = Some 7, db_filename = []\<rparr>,
              1 \<mapsto> \<lparr>db_pointer = Some 7, db_filename = []\<rparr>],
     nextRef = 2, unlinked = [],
     outbox = outbox opened_once @
       [(Response \<lparr>rsp_type = ''open'', rsp_dbId = JStr ''db#2@7'', rsp_messageId = JNum (Safe 1),
          rsp_departureTime = JUndefined,
          rsp_result = Result [(''filename'', JStr []), (''persistent'', JBool False),
                               (''dbId'', JStr ''db#2@7'')]\<rparr>, [])]\<rparr>"
  by (simp add: opened_twice_def opened_once_eval eval_defs numeral_2_eq_2)

lemma closed_second_eval:
  "closed_second = \<lparr>defaultDb = Some 0, idSeq = 2,
     idMap = [0 \<mapsto> ''db#1@7'', 1 \<mapsto> ''db#2@7''], xfer = [],
     dbs = [''db#1@7'' \<mapsto> 0, ''db#2@7'' \<mapsto> 1](''db#2@7'' := None),
     store = [0 \<mapsto> \<lparr>db_pointer = Some 7, db_filename = []\<rparr>,
              1 \<mapsto> \<lparr>db_pointer = None, db_filename = []\<rparr>],
     nextRef = 2, unlinked = [],
     outbox = outbox opened_twice @
       [(Response \<lparr>rsp_type = ''close'', rsp_dbId = JStr ''db#2@7'', rsp_messageId = JNum (Safe 1),
          rsp_departureTime = JUndefined,
          rsp_result = Result [(''filename'', JStr []), (''dbId'', JStr ''db#2@7'')]\<rparr>, [])]\<rparr>"
  by (simp add: closed_second_def close_request_def opened_twice_eval eval_defs)

theorem open_identifiers_distinct_witness:
  "opened_ids (responses (outbox (run [(eng_ok, open_request), (eng_ok, close_request ''db#1@7''),
       (eng_ok, open_request)] wInit))) = [JStr ''db#1@7'', JStr ''db#2@7'']
   \<and> idMap (run [(eng_ok, open_request), (eng_ok, close_request ''db#1@7''),
       (eng_ok, open_request)] wInit) 0 = Some ''db#1@7''
   \<and> distinct (opened_ids (responses (outbox (run [(eng_ok, open_request),
       (eng_ok, close_request ''db#1@7''), (eng_ok, open_request)] wInit))))
   \<and> JStr ''db#1@7'' \<in> set (opened_ids (responses (outbox (run [(eng_ok, open_request),
       (eng_ok, close_request ''db#1@7''), (eng_ok, open_request)] wInit))))"
proof -
  have r: "run [(eng_ok, open_request), (eng_ok, close_request ''db#1@7''), (eng_ok, open_request)] wInit
      = onmessage eng_ok open_request (onmessage eng_ok (close_request ''db#1@7'') opened_once)"
    by (simp add: opened_once_def open_request_def)
  have "opened_ids (responses (outbox (onmessage eng_ok open_request
          (onmessage eng_ok (close_request ''db#1@7'') opened_once))))
        = [JStr ''db#1@7'', JStr ''db#2@7'']"
    by (simp add: opened_once_eval open_request_def close_request_def eval_defs)
  moreover have "idMap (onmessage eng_ok open_request
          (onmessage eng_ok (close_request ''db#1@7'') opened_once)) 0 = Some ''db#1@7''"
    by (simp add: opened_once_eval open_request_def close_request_def eval_defs)
  ultimately show ?thesis
    using open_identifiers_distinct [of "[(eng_ok, open_request), (eng_ok, close_request ''db#1@7''),
       (eng_ok, open_request)]"]
    unfolding r by simp
qed



theorem failed_open_keeps_registry_witness:
  "ev_type open_request = ''open''
   \<and> new_DB eng_open_fails (open_filename (persistent_dir eng_open_fails) (open_args (ev_args open_request)))
       = Inl (JsError ''SQLite3Error'' ''unable to open'')
   \<and> registry (onmessage eng_open_fails open_request (run [(eng_ok, open_request)] wInit))
       = registry (run [(eng_ok, open_request)] wInit)
   \<and> (\<exists>r. responses (outbox (onmessage eng_open_fails open_request (run [(eng_ok, open_request)] wInit)))
            = responses (outbox (run [(eng_ok, open_request)] wInit)) @ [r]
          \<and> rsp_type r = ''error'')"
proof -
  have h1: "ev_type open_request = ''open''"
    by (simp add: open_request_def request_of_def)
  have h2: "new_DB eng_open_fails (open_filename (persistent_dir eng_open_fails) (open_args (ev_args open_request)))
       = Inl (JsError ''SQLite3Error'' ''unable to open'')"
    by (simp add: eng_open_fails_def)
  show ?thesis
    using failed_open_keeps_registry [OF h1 h2, of "[(eng_ok, open_request)]"] h1 h2 by simp
qed

text \<open>
  C2 at a failing input. The first message is an \<open>open\<close> request that carries
  \<open>dbId: 'db#9@9'\<close>. The handler opens a handle and returns its \<open>dbId: 'db#1@7'\<close> in the
  result, but the response envelope has \<open>dbId: 'db#9@9'\<close>: the request's identifier takes
  precedence over the identifier the handler returned, so the envelope does not name the
  handle that was opened and \<open>result.dbId\<close> is not a repeat of it.
\<close>

theorem request_dbId_overrides_opened_handle:
  "responses (outbox (onmessage eng_ok (request_of ''open'' ArgsAbsent (JStr ''db#9@9'')) wInit))
   = [\<lparr>rsp_type = ''open'', rsp_dbId = JStr ''db#9@9'', rsp_messageId = JNum (Safe 1),
        rsp_departureTime = JUndefined,
        rsp_result = Result [(''filename'', JStr []), (''persistent'', JBool False),
                             (''dbId'', JStr ''db#1@7'')]\<rparr>]"
  by (simp add: eval_defs)

section \<open>An identifier that names no open handle\<close>

text \<open>
  C3 at a failing input. Two handles are open, \<open>db#1@7\<close> (the default) and \<open>db#2@7\<close>;
  \<open>db#2@7\<close> is closed; a second \<open>close\<close> of \<open>db#2@7\<close> does not answer with \<open>filename\<close> and
  \<open>dbId\<close> undefined: it closes the default handle \<open>db#1@7\<close> and reports that one.
\<close>

theorem close_of_closed_handle_closes_default:
  "dbs closed_second ''db#2@7'' = None
   \<and> dbs closed_second ''db#1@7'' = Some 0
   \<and> responses (outbox (onmessage eng_ok (close_request ''db#2@7'') closed_second))
       = responses (outbox closed_second) @
         [\<lparr>rsp_type = ''close'', rsp_dbId = JStr ''db#2@7'', rsp_messageId = JNum (Safe 1),
           rsp_departureTime = JUndefined,
           rsp_result = Result [(''filename'', JStr []), (''dbId'', JStr ''db#1@7'')]\<rparr>]
   \<and> dbs (onmessage eng_ok (close_request ''db#2@7'') closed_second) ''db#1@7'' = None
   \<and> defaultDb (onmessage eng_ok (close_request ''db#2@7'') closed_second) = None"
  by (simp add: closed_second_eval close_request_def eval_defs responses_append)

text \<open>
  C4 at a failing input. With one handle open (the default), a request whose \<open>dbId\<close> is
  \<open>'db#5@7'\<close>, which names no handle, resolves to the default handle instead of failing.
\<close>

theorem unknown_identifier_resolves_to_default:
  "dbs opened_once ''db#5@7'' = None
   \<and> defaultDb opened_once = Some 0
   \<and> getMsgDb (request_of ''exec'' (ArgsStr ''delete from t'') (JStr ''db#5@7'')) opened_once = Inr 0"
  by (simp add: opened_once_eval request_of_def getMsgDb_def lookupMsgDb_def getDb_def
      affirmDbOpen_def pointer_of_def)

end
